theory Spec2Isabelle
  imports Complex_Main "HOL-Library.Log_Nat" "HOL-Library.AList"
begin

section \<open>JavaScript numbers\<close>

text \<open>
  Every number of the program is an IEEE 754 double. A finite double is a rational, so
  numbers are modelled as \<^typ>\<open>rat\<close> and every arithmetic operation rounds its exact result
  to the nearest double, ties to the even significand (\<open>fl\<close>). The exponent range is not
  modelled: no overflow to Infinity, no subnormals, no NaN. Array lengths and counters
  that are incremented by one per array element stay below \<open>2 ^ 32\<close>, where doubles are
  exact; they are modelled as \<^typ>\<open>nat\<close>.
\<close>

definition pow2 :: "int \<Rightarrow> rat" where
  "pow2 e = (if 0 \<le> e then 2 ^ nat e else 1 / 2 ^ nat (- e))"

text \<open>The binary exponent of a non-zero number: \<open>pow2 (binade x) \<le> \<bar>x\<bar> < pow2 (binade x + 1)\<close>.\<close>

definition binade :: "rat \<Rightarrow> int" where
  "binade x = (if 1 \<le> \<bar>x\<bar> then bitlen \<lfloor>\<bar>x\<bar>\<rfloor> - 1 else - bitlen (\<lceil>1 / \<bar>x\<bar>\<rceil> - 1))"

definition round_ties_even :: "rat \<Rightarrow> int" where
  "round_ties_even r =
     (let f = \<lfloor>r\<rfloor>; d = r - of_int f
      in if d < 1 / 2 then f else if 1 / 2 < d then f + 1 else if even f then f else f + 1)"

text \<open>Rounding to a 53-bit significand.\<close>

definition fl :: "rat \<Rightarrow> rat" where
  "fl x = (if x = 0 then 0
           else let u = pow2 (binade x - 52) in of_int (round_ties_even (x / u)) * u)"

definition js_add :: "rat \<Rightarrow> rat \<Rightarrow> rat" where
  "js_add a b = fl (a + b)"

definition js_sub :: "rat \<Rightarrow> rat \<Rightarrow> rat" where
  "js_sub a b = fl (a - b)"

definition js_mul :: "rat \<Rightarrow> rat \<Rightarrow> rat" where
  "js_mul a b = fl (a * b)"

definition js_div :: "rat \<Rightarrow> rat \<Rightarrow> rat" where
  "js_div a b = fl (a / b)"

text \<open>\<open>Math.round\<close>: the nearest integer, a tie going up.\<close>

definition Math_round :: "rat \<Rightarrow> int" where
  "Math_round x = \<lfloor>x + 1 / 2\<rfloor>"

section \<open>AuthContext.tsx: the session\<close>

record farmer =
  farmer_id :: string
  farmer_name :: string
  farmer_email :: string

type_synonym storage = "(string \<times> string) list"

text \<open>
  The state of \<open>AuthProvider\<close> (\<open>user\<close>, \<open>loading\<close>, \<open>sessionCheckAttempts\<close>) together with
  what its handlers touch in the browser: the two storages, the assignments to
  \<open>window.location.href\<close> (each one a hard navigation) and the console.
\<close>

record session =
  user :: "farmer option"
  loading :: bool
  sessionCheckAttempts :: nat
  localStorage :: storage
  sessionStorage :: storage
  href_assigned :: "string list"
  console :: "string list"

definition MAX_SESSION_CHECK_ATTEMPTS :: nat where
  "MAX_SESSION_CHECK_ATTEMPTS = 3"

definition initial_session :: "storage \<Rightarrow> storage \<Rightarrow> session" where
  "initial_session ls ss =
     \<lparr>user = None, loading = True, sessionCheckAttempts = 0, localStorage = ls,
      sessionStorage = ss, href_assigned = [], console = []\<rparr>"

definition console_log :: "string \<Rightarrow> session \<Rightarrow> session" where
  "console_log msg s = s\<lparr>console := console s @ [msg]\<rparr>"

definition clearSession :: "session \<Rightarrow> session" where
  "clearSession s = s\<lparr>user := None, loading := False, localStorage := [], sessionStorage := []\<rparr>"

definition handleSessionError :: "session \<Rightarrow> session" where
  "handleSessionError s =
     (let s1 = console_log ''Session error detected, clearing session and redirecting to home'' s;
          s2 = clearSession s1
      in s2\<lparr>href_assigned := href_assigned s2 @ [''/'']\<rparr>)"

text \<open>
  What the awaited calls of one \<open>checkUser\<close> invocation produce: \<open>getSession\<close> rejects, the
  session has a user but the \<open>farmers\<close> query yields no row (\<open>throw new Error('Farmer data
  not found')\<close>) or rejects; there is no session; or the session's farmer row is found.
\<close>

datatype check_failure = GetSessionRejects | FarmerNotFound | FarmerQueryRejects

datatype check_outcome = CheckFails check_failure | NoSession | SessionOf farmer

text \<open>
  \<open>checkUser\<close> is declared inside the effect \<open>useEffect(() => {...}, [])\<close>. With the empty
  dependency list the effect runs once, after the first render, so every invocation of
  \<open>checkUser\<close> (the retries call the same closure) reads the \<open>sessionCheckAttempts\<close> of that
  first render. That value is the parameter \<open>seen\<close>; the state itself is only written, by
  \<open>setSessionCheckAttempts(prev => prev + 1)\<close>. The boolean returned says whether the retry
  timer was started.
\<close>

definition checkUser :: "nat \<Rightarrow> check_outcome \<Rightarrow> session \<Rightarrow> session \<times> bool" where
  "checkUser seen outcome s =
     (case outcome of
        SessionOf f \<Rightarrow> (s\<lparr>user := Some f, sessionCheckAttempts := 0, loading := False\<rparr>, False)
      | NoSession \<Rightarrow> (s\<lparr>user := None, loading := False\<rparr>, False)
      | CheckFails e \<Rightarrow>
          (let s1 = console_log ''Session check error:'' s;
               s2 = s1\<lparr>sessionCheckAttempts := sessionCheckAttempts s1 + 1\<rparr>
           in if seen \<ge> MAX_SESSION_CHECK_ATTEMPTS
              then (handleSessionError
                      (console_log ''Max session check attempts reached, clearing session'' s2), False)
              else (s2, True)))"

text \<open>The retry timer's callback: \<open>if (sessionCheckAttempts < MAX_SESSION_CHECK_ATTEMPTS) checkUser()\<close>.\<close>

definition retry_calls_checkUser :: "nat \<Rightarrow> bool" where
  "retry_calls_checkUser seen = (seen < MAX_SESSION_CHECK_ATTEMPTS)"

text \<open>
  The run of the session check started by the effect: the list gives the outcome of each
  successive invocation. The boolean says whether a further invocation is still to come.
\<close>

fun run_checks :: "nat \<Rightarrow> check_outcome list \<Rightarrow> session \<Rightarrow> session \<times> bool" where
  "run_checks seen [] s = (s, True)"
| "run_checks seen (x # xs) s =
     (case checkUser seen x s of
        (s', retry) \<Rightarrow>
          if retry \<and> retry_calls_checkUser seen then run_checks seen xs s' else (s', False))"

definition initial_session_check :: "check_outcome list \<Rightarrow> storage \<Rightarrow> storage \<Rightarrow> session \<times> bool" where
  "initial_session_check outcomes ls ss =
     run_checks (sessionCheckAttempts (initial_session ls ss)) outcomes (initial_session ls ss)"

subsection \<open>signOut and signUp\<close>

text \<open>An awaited call of the external service either rejects or resolves to a response
  object with its \<open>data\<close> and \<open>error\<close> members (each possibly \<open>null\<close>).\<close>

datatype 'a awaited = Rejects string | Response "'a option" "string option"

definition signOut :: "unit awaited \<Rightarrow> session \<Rightarrow> session" where
  "signOut r s =
     clearSession
       (case r of
          Rejects e \<Rightarrow> console_log ''Error during sign out:'' s
        | Response d (Some e) \<Rightarrow> console_log ''Error during sign out:'' s
        | Response d None \<Rightarrow> s)"

text \<open>
  A JavaScript object with string members, as its list of own properties. The object
  literal \<open>{ email, password, ...userData }\<close> defines \<open>email\<close> and \<open>password\<close> and then
  copies every own property of \<open>userData\<close> in order, a later definition of a key replacing
  the value of an earlier one.
\<close>

type_synonym js_record = "(string \<times> string) list"

definition spread :: "js_record \<Rightarrow> js_record \<Rightarrow> js_record" where
  "spread obj src = foldl (\<lambda>acc (k, v). AList.update k v acc) obj src"

definition farmer_row :: "string \<Rightarrow> string \<Rightarrow> js_record \<Rightarrow> js_record" where
  "farmer_row email password userData =
     spread [(''email'', email), (''password'', password)] userData"

text \<open>
  The external service as \<open>signUp\<close> sees it: the \<open>error\<close> of \<open>auth.signUp\<close> for the
  credentials and the \<open>error\<close> of the insert for a row (\<open>signUp\<close> throws either). The
  state is the \<open>farmers\<close> table.
\<close>

record auth_service =
  auth_signUp :: "string \<Rightarrow> string \<Rightarrow> string option"
  insert_farmer :: "js_record \<Rightarrow> string option"

definition signUp ::
  "auth_service \<Rightarrow> string \<Rightarrow> string \<Rightarrow> js_record \<Rightarrow> js_record list \<Rightarrow> (string + unit) \<times> js_record list" where
  "signUp svc email password userData farmers =
     (case auth_signUp svc email password of
        Some e \<Rightarrow> (Inl e, farmers)
      | None \<Rightarrow>
          (case insert_farmer svc (farmer_row email password userData) of
             Some e \<Rightarrow> (Inl e, farmers)
           | None \<Rightarrow> (Inr (), farmers @ [farmer_row email password userData])))"

definition accepting_service :: auth_service where
  "accepting_service = \<lparr>auth_signUp = (\<lambda>email password. None), insert_farmer = (\<lambda>row. None)\<rparr>"

section \<open>LoadingSpinner.tsx and the component tree\<close>

text \<open>
  Time is counted in milliseconds. A pending timer is the number of milliseconds left
  until it fires; \<open>None\<close> is a timer that was cleared, has fired or was never set.

  The effect of \<open>LoadingSpinner\<close> has the dependency list \<open>[clearSession]\<close>. React runs the
  effect after the first render and again after every render in which \<open>clearSession\<close> is
  not the same function object as in the render before, running the cleanup of the
  previous run first. \<open>AuthProvider\<close> declares \<open>clearSession\<close> in its body, so each of
  its renders makes a new one and hands it to the consumers of the context. A render of
  \<open>AuthProvider\<close> is identified by its number, and so is the \<open>clearSession\<close> it makes.
\<close>

record loading_spinner =
  showTimeout :: bool
  timeoutId :: "nat option"
  forceRedirectId :: "nat option"
  clearSession_dep :: nat

definition spinner_effect :: "nat \<Rightarrow> loading_spinner \<Rightarrow> loading_spinner" where
  "spinner_effect cs sp =
     sp\<lparr>timeoutId := Some 8000, forceRedirectId := Some 12000, clearSession_dep := cs\<rparr>"

definition spinner_cleanup :: "loading_spinner \<Rightarrow> loading_spinner" where
  "spinner_cleanup sp = sp\<lparr>timeoutId := None, forceRedirectId := None\<rparr>"

definition spinner_mount :: "nat \<Rightarrow> loading_spinner" where
  "spinner_mount cs =
     spinner_effect cs
       \<lparr>showTimeout = False, timeoutId = None, forceRedirectId = None, clearSession_dep = cs\<rparr>"

definition spinner_render :: "nat \<Rightarrow> loading_spinner \<Rightarrow> loading_spinner" where
  "spinner_render cs sp =
     (if clearSession_dep sp = cs then sp else spinner_effect cs (spinner_cleanup sp))"

text \<open>
  The phase of the session check: an invocation of \<open>checkUser\<close> awaits \<open>getSession\<close>, with
  its 10 second timeout pending; \<open>getSession\<close> has resolved with a user, the timeout is
  cleared and the invocation awaits the \<open>farmers\<close> query; the 2 second retry timer is
  pending; or none of these.
\<close>

datatype check_phase = Awaiting nat | AwaitingFarmer | RetryIn nat | Settled

record app =
  auth :: session
  provider_render :: nat
  phase :: check_phase
  guard :: "loading_spinner option"

text \<open>\<open>AppRoutes\<close> renders \<open>LoadingSpinner\<close> exactly while \<open>loading\<close> is true.\<close>

definition AppRoutes :: "app \<Rightarrow> app" where
  "AppRoutes w =
     (if loading (auth w)
      then (case guard w of
              None \<Rightarrow> w\<lparr>guard := Some (spinner_mount (provider_render w))\<rparr>
            | Some sp \<Rightarrow> w\<lparr>guard := Some (spinner_render (provider_render w) sp)\<rparr>)
      else w\<lparr>guard := None\<rparr>)"

text \<open>
  A handler leaves the session \<open>s'\<close>. React renders \<open>AuthProvider\<close> again when one of its
  three state variables has changed, and with it the consumers of its context. (It
  also does when \<open>setUser\<close> is given a new object with the same members, and it may
  render once for each setter call of a handler; what matters below is that a handler
  which changes the state is followed by at least one render.)
\<close>

definition set_auth :: "session \<Rightarrow> app \<Rightarrow> app" where
  "set_auth s' w =
     (if user s' = user (auth w) \<and> loading s' = loading (auth w)
         \<and> sessionCheckAttempts s' = sessionCheckAttempts (auth w)
      then w\<lparr>auth := s'\<rparr>
      else AppRoutes (w\<lparr>auth := s', provider_render := Suc (provider_render w)\<rparr>))"

definition app_mount :: "storage \<Rightarrow> storage \<Rightarrow> app" where
  "app_mount ls ss =
     AppRoutes \<lparr>auth = initial_session ls ss, provider_render = 0, phase = Awaiting 10000,
                guard = None\<rparr>"

text \<open>The \<open>sessionCheckAttempts\<close> that the effect's \<open>checkUser\<close> closes over.\<close>

definition effect_sessionCheckAttempts :: nat where
  "effect_sessionCheckAttempts = sessionCheckAttempts (initial_session [] [])"

text \<open>A hard navigation unloads the page: nothing of it runs afterwards.\<close>

definition page_alive :: "app \<Rightarrow> bool" where
  "page_alive w = (href_assigned (auth w) = [])"

definition check_timer_tick :: "app \<Rightarrow> app" where
  "check_timer_tick w =
     (case phase w of
        Awaiting r \<Rightarrow>
          if r \<le> 1
          then set_auth (handleSessionError
                           (console_log ''Session check timeout, clearing session'' (auth w)))
                 (w\<lparr>phase := Settled\<rparr>)
          else w\<lparr>phase := Awaiting (r - 1)\<rparr>
      | AwaitingFarmer \<Rightarrow> w
      | RetryIn r \<Rightarrow>
          if r \<le> 1
          then w\<lparr>phase := (if retry_calls_checkUser effect_sessionCheckAttempts
                             then Awaiting 10000 else Settled)\<rparr>
          else w\<lparr>phase := RetryIn (r - 1)\<rparr>
      | Settled \<Rightarrow> w)"

definition hint_timer_tick :: "loading_spinner \<Rightarrow> loading_spinner" where
  "hint_timer_tick sp =
     (case timeoutId sp of
        None \<Rightarrow> sp
      | Some r \<Rightarrow>
          if r \<le> 1 then sp\<lparr>showTimeout := True, timeoutId := None\<rparr>
          else sp\<lparr>timeoutId := Some (r - 1)\<rparr>)"

definition force_redirect :: "session \<Rightarrow> session" where
  "force_redirect s =
     (let s1 = clearSession
                 (console_log ''Loading timeout reached, clearing session and redirecting'' s)
      in s1\<lparr>href_assigned := href_assigned s1 @ [''/'']\<rparr>)"

definition guard_tick :: "app \<Rightarrow> app" where
  "guard_tick w =
     (case guard w of
        None \<Rightarrow> w
      | Some sp0 \<Rightarrow>
          (let sp = hint_timer_tick sp0
           in case forceRedirectId sp of
                None \<Rightarrow> w\<lparr>guard := Some sp\<rparr>
              | Some r \<Rightarrow>
                  if r \<le> 1
                  then set_auth (force_redirect (auth w))
                         (w\<lparr>guard := Some (sp\<lparr>forceRedirectId := None\<rparr>)\<rparr>)
                  else w\<lparr>guard := Some (sp\<lparr>forceRedirectId := Some (r - 1)\<rparr>)\<rparr>))"

text \<open>One millisecond passes.\<close>

definition tick :: "app \<Rightarrow> app" where
  "tick w =
     (if page_alive w
      then (let w1 = check_timer_tick w in if page_alive w1 then guard_tick w1 else w1)
      else w)"

primrec elapse :: "nat \<Rightarrow> app \<Rightarrow> app" where
  "elapse 0 w = w"
| "elapse (Suc n) w = elapse n (tick w)"

text \<open>\<open>getSession\<close> resolves with a user: \<open>clearTimeout(timeoutId)\<close>, and the \<open>farmers\<close> query
  is sent.\<close>

definition session_found :: "app \<Rightarrow> app" where
  "session_found w =
     (if page_alive w
      then (case phase w of
              Awaiting r \<Rightarrow> w\<lparr>phase := AwaitingFarmer\<rparr>
            | AwaitingFarmer \<Rightarrow> w
            | RetryIn r \<Rightarrow> w
            | Settled \<Rightarrow> w)
      else w)"

text \<open>
  The pending \<open>checkUser\<close> invocation runs to its end. The outcomes of \<open>getSession\<close> itself
  (it rejects, or there is no session) end an invocation that awaits \<open>getSession\<close>; the
  others end one that awaits the \<open>farmers\<close> query.
\<close>

definition from_getSession :: "check_outcome \<Rightarrow> bool" where
  "from_getSession outcome = (outcome = CheckFails GetSessionRejects \<or> outcome = NoSession)"

definition settle :: "check_outcome \<Rightarrow> app \<Rightarrow> app" where
  "settle outcome w =
     (case checkUser effect_sessionCheckAttempts outcome (auth w) of
        (s', retry) \<Rightarrow> set_auth s' (w\<lparr>phase := (if retry then RetryIn 2000 else Settled)\<rparr>))"

definition check_settles :: "check_outcome \<Rightarrow> app \<Rightarrow> app" where
  "check_settles outcome w =
     (if page_alive w
      then (case phase w of
              Awaiting r \<Rightarrow> if from_getSession outcome then settle outcome w else w
            | AwaitingFarmer \<Rightarrow> if from_getSession outcome then w else settle outcome w
            | RetryIn r \<Rightarrow> w
            | Settled \<Rightarrow> w)
      else w)"

text \<open>
  The events of a run: time passes, \<open>getSession\<close> resolves with a user, or the pending
  session check runs to its end. The notifications of the auth-change subscription
  are not among them: the runs considered are those in which the external service
  sends none.
\<close>

datatype event = Elapse nat | SessionFound | CheckSettles check_outcome

fun step :: "app \<Rightarrow> event \<Rightarrow> app" where
  "step w (Elapse n) = elapse n w"
| "step w SessionFound = session_found w"
| "step w (CheckSettles outcome) = check_settles outcome w"

definition run :: "event list \<Rightarrow> app \<Rightarrow> app" where
  "run evs w = foldl step w evs"

text \<open>A session check that keeps failing: each invocation fails after \<open>latency\<close>
  milliseconds, and the retry timer then runs for its 2 seconds.\<close>

definition failing_round :: "nat \<Rightarrow> event list" where
  "failing_round latency = [Elapse latency, CheckSettles (CheckFails GetSessionRejects), Elapse 2000]"

definition failing_rounds :: "nat \<Rightarrow> nat \<Rightarrow> event list" where
  "failing_rounds k latency = concat (replicate k (failing_round latency))"

text \<open>The time a list of events takes.\<close>

fun event_duration :: "event \<Rightarrow> nat" where
  "event_duration (Elapse n) = n"
| "event_duration SessionFound = 0"
| "event_duration (CheckSettles outcome) = 0"

definition duration :: "event list \<Rightarrow> nat" where
  "duration evs = sum_list (map event_duration evs)"

text \<open>
  The states in which the page shows the spinner without the hint: a check awaits
  \<open>getSession\<close> with \<open>r\<close> milliseconds left on its timeout, or the retry timer has \<open>r\<close> milliseconds left;
  the spinner's timers have \<open>a\<close> and \<open>b\<close> milliseconds left, and its effect last ran
  with the \<open>clearSession\<close> of the current render \<open>j\<close>.
\<close>

definition awaiting_state :: "session \<Rightarrow> nat \<Rightarrow> nat \<Rightarrow> nat \<Rightarrow> nat \<Rightarrow> app" where
  "awaiting_state s j r a b =
     \<lparr>auth = s, provider_render = j, phase = Awaiting r,
      guard = Some \<lparr>showTimeout = False, timeoutId = Some a, forceRedirectId = Some b,
                    clearSession_dep = j\<rparr>\<rparr>"

definition retrying_state :: "session \<Rightarrow> nat \<Rightarrow> nat \<Rightarrow> nat \<Rightarrow> nat \<Rightarrow> app" where
  "retrying_state s j r a b =
     \<lparr>auth = s, provider_render = j, phase = RetryIn r,
      guard = Some \<lparr>showTimeout = False, timeoutId = Some a, forceRedirectId = Some b,
                    clearSession_dep = j\<rparr>\<rparr>"

definition failed_times :: "nat \<Rightarrow> session \<Rightarrow> session" where
  "failed_times k s =
     s\<lparr>sessionCheckAttempts := sessionCheckAttempts s + k,
       console := console s @ replicate k ''Session check error:''\<rparr>"

section \<open>Dashboard: fetching and the derived statistics\<close>

record land =
  lid :: string
  location :: string
  acres :: rat

record plant =
  land_id :: string
  disease_percentage :: "rat option"

text \<open>
  A time value is a number of milliseconds since the epoch, 1 January 1970 00:00 UTC.
  A calendar date is represented by its day number, the number of days from 1 January
  1970 to it. The column \<open>scheduled_date\<close> holds an ISO text: \<open>Date_only d\<close> is the text
  \<open>YYYY-MM-DD\<close> of the calendar date \<open>d\<close>; \<open>Date_time tv\<close> is a text with a time of day,
  \<open>tv\<close> being the time value that \<open>new Date\<close> gives it. A text that is no date is not
  modelled.
\<close>

datatype date_text = Date_only int | Date_time int

record treatment =
  pesticide_name :: string
  scheduled_date :: date_text
  completed :: bool

record diagnosis =
  diagnosis_id :: string
  created_at :: string

record dashboard_stats =
  totalLands :: nat
  totalAcres :: rat
  activeTreatments :: nat
  completedTreatments :: nat
  averageDiseasePercentage :: int

text \<open>The state of the \<open>Dashboard\<close> component, and the console.\<close>

record dashboard =
  stats :: dashboard_stats
  lands :: "land list"
  treatments :: "treatment list"
  diagnoses :: "diagnosis list"
  errors_logged :: "string list"

text \<open>The four queries, as the external service answers them.\<close>

record data_service =
  select_lands :: "string \<Rightarrow> land list awaited"
  select_plants :: "string list \<Rightarrow> plant list awaited"
  select_treatments :: "string \<Rightarrow> treatment list awaited"
  select_diagnoses :: "string \<Rightarrow> diagnosis list awaited"

definition initial_dashboard :: dashboard where
  "initial_dashboard =
     \<lparr>stats = \<lparr>totalLands = 0, totalAcres = 0, activeTreatments = 0, completedTreatments = 0,
               averageDiseasePercentage = 0\<rparr>,
      lands = [], treatments = [], diagnoses = [], errors_logged = []\<rparr>"

text \<open>\<open>data || []\<close>\<close>

definition or_empty :: "'a list option \<Rightarrow> 'a list" where
  "or_empty d = (case d of None \<Rightarrow> [] | Some xs \<Rightarrow> xs)"

text \<open>\<open>plant.disease_percentage || 0\<close>\<close>

definition disease_or_0 :: "plant \<Rightarrow> rat" where
  "disease_or_0 p = (case disease_percentage p of None \<Rightarrow> 0 | Some v \<Rightarrow> v)"

definition avgDiseasePercentage :: "plant list option \<Rightarrow> rat" where
  "avgDiseasePercentage plantsData =
     (case plantsData of
        None \<Rightarrow> 0
      | Some ps \<Rightarrow>
          if length ps = 0 then 0
          else js_div (foldl (\<lambda>sum p. js_add sum (disease_or_0 p)) 0 ps) (of_nat (length ps)))"

definition calculate_stats ::
  "land list option \<Rightarrow> plant list option \<Rightarrow> treatment list option \<Rightarrow> dashboard_stats" where
  "calculate_stats landsData plantsData treatmentsData =
     \<lparr>totalLands = length (or_empty landsData),
      totalAcres = (case landsData of
                      None \<Rightarrow> 0
                    | Some ls \<Rightarrow> foldl (\<lambda>sum l. js_add sum (acres l)) 0 ls),
      activeTreatments = length (filter (\<lambda>t. \<not> completed t) (or_empty treatmentsData)),
      completedTreatments = length (filter completed (or_empty treatmentsData)),
      averageDiseasePercentage = Math_round (avgDiseasePercentage plantsData)\<rparr>"

definition caught :: "dashboard \<Rightarrow> dashboard" where
  "caught d = d\<lparr>errors_logged := errors_logged d @ [''Error fetching dashboard data:'']\<rparr>"

text \<open>
  \<open>fetchDashboardData\<close>: each \<open>await\<close> either rejects, which the \<open>catch\<close> block handles, or
  resolves to a response of which only \<open>data\<close> is read.
\<close>

definition fetchDashboardData :: "farmer option \<Rightarrow> data_service \<Rightarrow> dashboard \<Rightarrow> dashboard" where
  "fetchDashboardData u svc d =
     (case u of
        None \<Rightarrow> d
      | Some f \<Rightarrow>
          (case select_lands svc (farmer_id f) of
             Rejects e \<Rightarrow> caught d
           | Response landsData err1 \<Rightarrow>
          (case select_plants svc (map lid (or_empty landsData)) of
             Rejects e \<Rightarrow> caught d
           | Response plantsData err2 \<Rightarrow>
          (case select_treatments svc (farmer_id f) of
             Rejects e \<Rightarrow> caught d
           | Response treatmentsData err3 \<Rightarrow>
          (case select_diagnoses svc (farmer_id f) of
             Rejects e \<Rightarrow> caught d
           | Response diagnosesData err4 \<Rightarrow>
               d\<lparr>lands := or_empty landsData,
                 treatments := or_empty treatmentsData,
                 diagnoses := or_empty diagnosesData,
                 stats := calculate_stats landsData plantsData treatmentsData\<rparr>)))))"

text \<open>Sample records, and a service that gives one fixed answer to each of the four
  queries.\<close>

definition farmer_asha :: farmer where
  "farmer_asha = \<lparr>farmer_id = ''f-1'', farmer_name = ''Asha'', farmer_email = ''asha@example.org''\<rparr>"

definition plant_with :: "rat \<Rightarrow> plant" where
  "plant_with v = \<lparr>land_id = ''l-1'', disease_percentage = Some v\<rparr>"

definition treatment_named :: "string \<Rightarrow> bool \<Rightarrow> treatment" where
  "treatment_named n c = \<lparr>pesticide_name = n, scheduled_date = Date_only 19732, completed = c\<rparr>"


definition answering_service ::
  "land list awaited \<Rightarrow> plant list awaited \<Rightarrow> treatment list awaited \<Rightarrow> diagnosis list awaited
     \<Rightarrow> data_service" where
  "answering_service l p t g =
     \<lparr>select_lands = (\<lambda>farmer. l), select_plants = (\<lambda>land_ids. p),
      select_treatments = (\<lambda>farmer. t), select_diagnoses = (\<lambda>farmer. g)\<rparr>"

text \<open>
  The average as the specification words it, in exact arithmetic: the arithmetic mean
  of the records' \<open>disease_percentage\<close> values, a record without a value counting 0,
  rounded to the nearest integer (a half going up); 0 when there is no record.
\<close>

definition spec_value :: "plant \<Rightarrow> rat" where
  "spec_value p = (case disease_percentage p of None \<Rightarrow> 0 | Some v \<Rightarrow> v)"

definition spec_average :: "plant list \<Rightarrow> int" where
  "spec_average ps =
     (if ps = [] then 0 else round (sum_list (map spec_value ps) / of_nat (length ps)))"

text \<open>A record whose value, if it has one, is a whole number from 0 to 100.\<close>

definition whole_percentage :: "plant \<Rightarrow> bool" where
  "whole_percentage p =
     (case disease_percentage p of
        None \<Rightarrow> True
      | Some v \<Rightarrow> 0 \<le> v \<and> v \<le> 100 \<and> of_int \<lfloor>v\<rfloor> = v)"

subsection \<open>The crop-health donut\<close>



text \<open>
  The share as the specification words it, in exact arithmetic:
  \<open>round(completed / total * 100)\<close>, the nearest integer, a half going up. The exact
  percentage lies halfway between two whole numbers when \<open>200 * completed + total\<close> is
  a multiple of \<open>2 * total\<close>.
\<close>

definition spec_share :: "nat \<Rightarrow> nat \<Rightarrow> int" where
  "spec_share c t = round (of_nat c / of_nat t * 100 :: rat)"




subsection \<open>Pesticide usage\<close>

text \<open>\<open>pesticide_name.split(' ')[0]\<close>: the text before the first space.\<close>

definition first_word :: "string \<Rightarrow> string" where
  "first_word s = takeWhile (\<lambda>c. c \<noteq> CHR '' '') s"

text \<open>
  The accumulator of the \<open>reduce\<close> is a plain object \<open>{}\<close>, modelled as the list of its own
  properties in the order of their creation, each holding a pair \<open>(used, effective)\<close>.
  A plain object inherits the members of \<open>Object.prototype\<close>. For such a name
  \<open>acc[name]\<close> reads the inherited member, which is a function or an object and so
  truthy: no own property is created, and the two increments write to the inherited
  member's object, not to \<open>acc\<close>.
\<close>

definition Object_prototype_keys :: "string list" where
  "Object_prototype_keys =
     [''constructor'', ''hasOwnProperty'', ''isPrototypeOf'', ''propertyIsEnumerable'',
      ''toLocaleString'', ''toString'', ''valueOf'', ''__proto__'', ''__defineGetter__'',
      ''__defineSetter__'', ''__lookupGetter__'', ''__lookupSetter__'']"

definition tally :: "(string \<times> nat \<times> nat) list \<Rightarrow> treatment \<Rightarrow> (string \<times> nat \<times> nat) list" where
  "tally acc t =
     (let name = first_word (pesticide_name t)
      in if name \<in> set Object_prototype_keys then acc
         else
           (let acc1 = (if map_of acc name = None then acc @ [(name, (0, 0))] else acc);
                acc2 = AList.map_entry name (\<lambda>(u, e). (u + 1, e)) acc1
            in if completed t then AList.map_entry name (\<lambda>(u, e). (u, e + 1)) acc2 else acc2))"

text \<open>
  \<open>Object.entries\<close> lists the own properties in the order of the object's own property
  keys: first the keys that are array indices (the canonical decimal numerals of the
  integers below \<open>2 ^ 32 - 1\<close>), in ascending numeric order, then the other keys in the
  order of their creation.
\<close>

definition decimal_value :: "string \<Rightarrow> nat" where
  "decimal_value s = foldl (\<lambda>n c. 10 * n + (of_char c - 48)) 0 s"

definition is_array_index :: "string \<Rightarrow> bool" where
  "is_array_index s =
     (s \<noteq> [] \<and> list_all (\<lambda>c. c \<in> set ''0123456789'') s
      \<and> (if hd s = CHR ''0'' then length s = 1 else True)
      \<and> decimal_value s < 2 ^ 32 - 1)"

definition own_property_keys :: "string list \<Rightarrow> string list" where
  "own_property_keys created =
     sort_key decimal_value (filter is_array_index created)
       @ filter (\<lambda>k. \<not> is_array_index k) created"

definition Object_entries :: "(string \<times> 'a) list \<Rightarrow> (string \<times> 'a) list" where
  "Object_entries obj =
     concat (map (\<lambda>k. case map_of obj k of None \<Rightarrow> [] | Some v \<Rightarrow> [(k, v)])
               (own_property_keys (map fst obj)))"

record pesticide_usage =
  pesticide :: string
  used :: nat
  effectiveness :: int

definition usage_entry :: "string \<times> nat \<times> nat \<Rightarrow> pesticide_usage" where
  "usage_entry entry =
     (case entry of
        (name, u, e) \<Rightarrow>
          \<lparr>pesticide = name, used = u,
           effectiveness = (if u > 0 then Math_round (js_mul (js_div (of_nat e) (of_nat u)) 100)
                            else 0)\<rparr>)"

definition generatePesticideUsage :: "treatment list \<Rightarrow> pesticide_usage list" where
  "generatePesticideUsage ts = take 6 (map usage_entry (Object_entries (foldl tally [] ts)))"








subsection \<open>The 30-day health trend\<close>

text \<open>
  The platform's \<open>Date\<close>, as far as the trend reads it. \<open>now i\<close> is the time value of the
  \<open>new Date()\<close> made for the index \<open>i\<close>, and \<open>utc_offset\<close> is the local time minus UTC, in
  milliseconds, taken as the same over the 30 days (no change of daylight saving time
  among them). \<open>setDate(getDate() - k)\<close> moves the local date \<open>k\<close> days back and keeps the
  local time of day, so the time value goes down by \<open>k\<close> days. \<open>new Date(s)\<close> reads a
  date without a time of day as the start of that date in UTC. \<open>toLocaleDateString\<close>
  shows the month and the day of the local date; the model keeps that date.
\<close>

definition msPerDay :: int where
  "msPerDay = 86400000"

record clock =
  now :: "nat \<Rightarrow> int"
  utc_offset :: int

definition Date_parse :: "date_text \<Rightarrow> int" where
  "Date_parse s = (case s of Date_only d \<Rightarrow> d * msPerDay | Date_time tv \<Rightarrow> tv)"

definition toLocaleDateString :: "clock \<Rightarrow> int \<Rightarrow> int" where
  "toLocaleDateString env tv = (tv + utc_offset env) div msPerDay"

record trend_point =
  date :: int
  health :: rat
  disease :: rat

definition last30Days :: "clock \<Rightarrow> int list" where
  "last30Days env = map (\<lambda>i. now env i - int (29 - i) * msPerDay) [0..<30]"

definition trend_of_day :: "clock \<Rightarrow> treatment list \<Rightarrow> int \<Rightarrow> int \<Rightarrow> trend_point" where
  "trend_of_day env ts avg d =
     (let completedTreatments =
            length (filter (\<lambda>t. Date_parse (scheduled_date t) \<le> d \<and> completed t) ts);
          baseHealth = max 20 (js_sub 100 (of_int avg));
          improvement = min 30 (js_mul (of_nat completedTreatments) 5);
          healthScore = min 100 (js_add baseHealth improvement)
      in \<lparr>date = toLocaleDateString env d, health = healthScore,
          disease = max 0 (js_sub 100 healthScore)\<rparr>)"

definition generateCropHealthTrend :: "clock \<Rightarrow> dashboard \<Rightarrow> trend_point list" where
  "generateCropHealthTrend env d =
     map snd
       (filter (\<lambda>(index, p). index mod 3 = 0)
          (enumerate 0
             (map (trend_of_day env (treatments d) (averageDiseasePercentage (stats d)))
                (last30Days env))))"

text \<open>
  The trend as the specification words it, on calendar dates and in exact integer
  arithmetic. In a time zone of offset \<open>zone\<close> the calendar date at a time value \<open>tv\<close> is
  \<open>(tv + zone) div msPerDay\<close>. The scheduled date of a treatment is the date written, or
  for a text with a time of day the date of that moment. The point of index \<open>i\<close> is for
  the day \<open>29 - i\<close> days before today: its health score is
  \<open>min(100, max(20, 100 - average) + min(30, 5 * count))\<close>, the count being of the
  completed treatments whose scheduled date is on or before that day, and its disease
  level is \<open>100 - health\<close>. The series keeps the indices 0, 3, 6, ..., 27.
\<close>

definition spec_scheduled_day :: "int \<Rightarrow> date_text \<Rightarrow> int" where
  "spec_scheduled_day zone s =
     (case s of Date_only d \<Rightarrow> d | Date_time tv \<Rightarrow> (tv + zone) div msPerDay)"


definition spec_health :: "int \<Rightarrow> nat \<Rightarrow> int" where
  "spec_health avg n = min 100 (max 20 (100 - avg) + min 30 (5 * int n))"



section \<open>Properties of the double arithmetic\<close>

subsection \<open>Powers of two\<close>

lemma pow2_powi: "pow2 e = 2 powi e"
  by (simp add: pow2_def power_int_def field_simps)

lemma pow2_pos: "0 < pow2 e"
  by (simp add: pow2_def)

lemma pow2_add: "pow2 (a + b) = pow2 a * pow2 b"
  by (simp add: pow2_powi power_int_add)

lemma pow2_mono: "a \<le> b \<Longrightarrow> pow2 a \<le> pow2 b"
  by (simp add: pow2_powi power_int_increasing)

lemma pow2_strict_mono: "a < b \<Longrightarrow> pow2 a < pow2 b"
  by (simp add: pow2_powi power_int_strict_increasing)

lemma pow2_less_iff: "pow2 a < pow2 b \<longleftrightarrow> a < b"
proof
  assume "pow2 a < pow2 b"
  then have "\<not> pow2 b \<le> pow2 a" by simp
  then have "\<not> b \<le> a" using pow2_mono by blast
  then show "a < b" by simp
qed (rule pow2_strict_mono)

lemma pow2_nonneg: "0 \<le> pow2 e"
  by (simp add: pow2_def)

lemma pow2_nonzero: "pow2 e \<noteq> 0"
  using pow2_pos[of e] by simp

lemma abs_pow2: "\<bar>pow2 e\<bar> = pow2 e"
  using pow2_pos[of e] by simp

lemma pow2_split52: "pow2 e = 2 ^ 52 * pow2 (e - 52)"
proof -
  have "pow2 e = pow2 (52 + (e - 52))" by (rule arg_cong[where f = pow2]) simp
  also have "\<dots> = pow2 52 * pow2 (e - 52)" by (rule pow2_add)
  finally show ?thesis by (simp add: pow2_def)
qed

lemma pow2_split53: "pow2 (e + 1) = 2 ^ 53 * pow2 (e - 52)"
proof -
  have "pow2 (e + 1) = pow2 (53 + (e - 52))" by (rule arg_cong[where f = pow2]) simp
  also have "\<dots> = pow2 53 * pow2 (e - 52)" by (rule pow2_add)
  finally show ?thesis by (simp add: pow2_def)
qed

lemma pow2_nat: "pow2 (int n) = 2 ^ n"
  by (simp add: pow2_def)

subsection \<open>The binary exponent\<close>

lemma binade_bounds:
  assumes "x \<noteq> 0"
  shows "pow2 (binade x) \<le> \<bar>x\<bar>" and "\<bar>x\<bar> < pow2 (binade x + 1)"
proof -
  have "pow2 (binade x) \<le> \<bar>x\<bar> \<and> \<bar>x\<bar> < pow2 (binade x + 1)"
  proof (cases "1 \<le> \<bar>x\<bar>")
    case True
    define n where "n = \<lfloor>\<bar>x\<bar>\<rfloor>"
    have n: "0 < n" using True by (simp add: n_def)
    from bitlen_bounds[OF n] have b: "2 ^ nat (bitlen n - 1) \<le> n" "n < 2 ^ nat (bitlen n)" by auto
    have bl: "1 \<le> bitlen n" using n by (simp add: bitlen_alt_def)
    have "(of_int (2 ^ nat (bitlen n - 1)) :: rat) \<le> of_int n" using b(1) by (simp only: of_int_le_iff)
    also have "\<dots> \<le> \<bar>x\<bar>" by (simp add: n_def)
    finally have l: "pow2 (bitlen n - 1) \<le> \<bar>x\<bar>" using bl by (simp add: pow2_def)
    have "n + 1 \<le> 2 ^ nat (bitlen n)" using b(2) by simp
    then have "(of_int (n + 1) :: rat) \<le> of_int (2 ^ nat (bitlen n))" by (simp only: of_int_le_iff)
    moreover have "\<bar>x\<bar> < of_int (n + 1)" unfolding n_def by linarith
    ultimately have "\<bar>x\<bar> < pow2 (bitlen n)" using bl by (simp add: pow2_def)
    with l True show ?thesis by (simp add: binade_def n_def)
  next
    case False
    define y where "y = 1 / \<bar>x\<bar>"
    have xpos: "0 < \<bar>x\<bar>" using assms by simp
    have y1: "1 < y" using False xpos by (simp add: y_def)
    define c where "c = \<lceil>y\<rceil>"
    have c: "0 < c - 1" using y1 unfolding c_def by linarith
    define k where "k = bitlen (c - 1)"
    have k1: "1 \<le> k" using c by (simp add: k_def bitlen_alt_def)
    from bitlen_bounds[OF c] have b: "2 ^ nat (k - 1) \<le> c - 1" "c - 1 < 2 ^ nat k" by (auto simp: k_def)
    have "c \<le> 2 ^ nat k" using b(2) by simp
    then have "(of_int c :: rat) \<le> of_int (2 ^ nat k)" by (simp only: of_int_le_iff)
    moreover have "y \<le> of_int c" by (simp add: c_def)
    ultimately have "y \<le> of_int (2 ^ nat k)" by linarith
    then have "y \<le> 2 ^ nat k" by simp
    then have "1 / 2 ^ nat k \<le> \<bar>x\<bar>" using xpos by (simp add: y_def field_simps)
    then have l: "pow2 (- k) \<le> \<bar>x\<bar>" using k1 by (simp add: pow2_def)
    have "(of_int (2 ^ nat (k - 1)) :: rat) \<le> of_int (c - 1)" using b(1) by (simp only: of_int_le_iff)
    moreover have "of_int (c - 1) < y" unfolding c_def by linarith
    ultimately have "of_int (2 ^ nat (k - 1)) < y" by linarith
    then have "2 ^ nat (k - 1) < y" by simp
    then have "\<bar>x\<bar> < 1 / 2 ^ nat (k - 1)" using xpos by (simp add: y_def field_simps)
    then have "\<bar>x\<bar> < pow2 (- k + 1)" using k1 by (auto simp add: pow2_def)
    with l False show ?thesis by (simp add: binade_def k_def c_def y_def)
  qed
  then show "pow2 (binade x) \<le> \<bar>x\<bar>" and "\<bar>x\<bar> < pow2 (binade x + 1)" by auto
qed

lemma binade_eqI:
  assumes "pow2 e \<le> \<bar>x\<bar>" and "\<bar>x\<bar> < pow2 (e + 1)"
  shows "binade x = e"
proof -
  have "0 < \<bar>x\<bar>" using assms(1) pow2_pos[of e] by linarith
  then have x: "x \<noteq> 0" by simp
  note b = binade_bounds[OF x]
  have "pow2 (binade x) < pow2 (e + 1)" using b(1) assms(2) by simp
  moreover have "pow2 e < pow2 (binade x + 1)" using b(2) assms(1) by simp
  ultimately show ?thesis by (simp add: pow2_less_iff)
qed

lemma binade_minus: "binade (- x) = binade x"
  by (simp add: binade_def)

subsection \<open>Rounding to an integer, ties to even\<close>

lemma round_ties_even_error: "\<bar>of_int (round_ties_even r) - r\<bar> \<le> 1 / 2"
proof -
  have "of_int \<lfloor>r\<rfloor> \<le> r" "r < of_int \<lfloor>r\<rfloor> + 1" by linarith+
  then show ?thesis
    unfolding round_ties_even_def Let_def by (auto split: if_splits)
qed

lemma round_ties_even_tie:
  assumes "\<bar>of_int (round_ties_even r) - r\<bar> = 1 / 2"
  shows "even (round_ties_even r)"
proof -
  have "of_int \<lfloor>r\<rfloor> \<le> r" "r < of_int \<lfloor>r\<rfloor> + 1" by linarith+
  then show ?thesis
    using assms unfolding round_ties_even_def Let_def by (auto split: if_splits)
qed

lemma round_ties_even_eqI:
  assumes "\<bar>of_int m - r\<bar> \<le> 1 / 2" and "\<bar>of_int m - r\<bar> = 1 / 2 \<Longrightarrow> even m"
  shows "round_ties_even r = m"
proof -
  let ?k = "round_ties_even r"
  have e: "\<bar>of_int ?k - r\<bar> \<le> 1 / 2" by (rule round_ties_even_error)
  have "\<bar>(of_int ?k :: rat) - of_int m\<bar> \<le> 1" using e assms(1) by linarith
  then have "\<bar>?k - m\<bar> \<le> 1" by (metis of_int_abs of_int_diff of_int_le_1_iff)
  then consider "?k = m" | "?k = m + 1" | "?k = m - 1" by linarith
  then show ?thesis
  proof cases
    case 1 then show ?thesis .
  next
    case 2
    then have "of_int ?k = (of_int m :: rat) + 1" by simp
    with e assms(1) have "\<bar>of_int m - r\<bar> = 1 / 2" "\<bar>of_int ?k - r\<bar> = 1 / 2" by linarith+
    then have "even m" "even ?k" using assms(2) round_ties_even_tie by auto
    with 2 show ?thesis by simp
  next
    case 3
    then have "of_int ?k = (of_int m :: rat) - 1" by simp
    with e assms(1) have "\<bar>of_int m - r\<bar> = 1 / 2" "\<bar>of_int ?k - r\<bar> = 1 / 2" by linarith+
    then have "even m" "even ?k" using assms(2) round_ties_even_tie by auto
    with 3 show ?thesis by simp
  qed
qed

lemma round_ties_even_near: "\<bar>r - of_int m\<bar> < 1 / 2 \<Longrightarrow> round_ties_even r = m"
  by (rule round_ties_even_eqI) linarith+

lemma round_ties_even_of_int: "round_ties_even (of_int m) = m"
  by (rule round_ties_even_near) simp

lemma round_ties_even_minus: "round_ties_even (- r) = - round_ties_even r"
proof (rule round_ties_even_eqI)
  have "\<bar>of_int (- round_ties_even r) - - r\<bar> = \<bar>of_int (round_ties_even r) - r\<bar>" by simp
  then show "\<bar>of_int (- round_ties_even r) - - r\<bar> \<le> 1 / 2"
    and "\<bar>of_int (- round_ties_even r) - - r\<bar> = 1 / 2 \<Longrightarrow> even (- round_ties_even r)"
    using round_ties_even_error[of r] round_ties_even_tie[of r] by auto
qed

lemma round_ties_even_mono:
  assumes "r \<le> s"
  shows "round_ties_even r \<le> round_ties_even s"
proof (rule ccontr)
  assume "\<not> ?thesis"
  then have "round_ties_even s + 1 \<le> round_ties_even r" by simp
  then have "(of_int (round_ties_even s) :: rat) + 1 \<le> of_int (round_ties_even r)"
    by (metis of_int_1 of_int_add of_int_le_iff)
  with round_ties_even_error[of r] round_ties_even_error[of s] assms
  have "r = s" by linarith
  with \<open>\<not> ?thesis\<close> show False by simp
qed

lemma round_ties_even_le: "r \<le> of_int n \<Longrightarrow> round_ties_even r \<le> n"
  using round_ties_even_mono[of r "of_int n"] by (simp add: round_ties_even_of_int)

lemma round_ties_even_ge: "of_int n \<le> r \<Longrightarrow> n \<le> round_ties_even r"
  using round_ties_even_mono[of "of_int n" r] by (simp add: round_ties_even_of_int)


subsection \<open>Rounding to a double\<close>

lemma fl_0: "fl 0 = 0"
  by (simp add: fl_def)

lemma fl_minus: "fl (- x) = - fl x"
  by (simp add: fl_def Let_def round_ties_even_minus binade_minus)

lemma fl_eqI:
  assumes "pow2 e \<le> \<bar>x\<bar>" and "\<bar>x\<bar> < pow2 (e + 1)"
    and "\<bar>x / pow2 (e - 52) - of_int m\<bar> < 1 / 2"
  shows "fl x = of_int m * pow2 (e - 52)"
proof -
  have "0 < \<bar>x\<bar>" using assms(1) pow2_pos[of e] by linarith
  then have x: "x \<noteq> 0" by simp
  have "binade x = e" using assms(1,2) by (rule binade_eqI)
  with x round_ties_even_near[OF assms(3)] show ?thesis by (simp add: fl_def)
qed

lemma fl_eqI_even:
  assumes "pow2 e \<le> \<bar>x\<bar>" and "\<bar>x\<bar> < pow2 (e + 1)"
    and "\<bar>of_int m - x / pow2 (e - 52)\<bar> \<le> 1 / 2" and "even m"
  shows "fl x = of_int m * pow2 (e - 52)"
proof -
  have "0 < \<bar>x\<bar>" using assms(1) pow2_pos[of e] by linarith
  then have x: "x \<noteq> 0" by simp
  have "binade x = e" using assms(1,2) by (rule binade_eqI)
  moreover have "round_ties_even (x / pow2 (e - 52)) = m"
    using assms(3,4) by (intro round_ties_even_eqI)
  ultimately show ?thesis using x by (simp add: fl_def)
qed

lemma significand_bounds:
  assumes "x \<noteq> 0"
  shows "2 ^ 52 \<le> \<bar>x\<bar> / pow2 (binade x - 52)" and "\<bar>x\<bar> / pow2 (binade x - 52) < 2 ^ 53"
proof -
  have a: "pow2 (binade x) = 2 ^ 52 * pow2 (binade x - 52)" by (rule pow2_split52)
  have b: "pow2 (binade x + 1) = 2 ^ 53 * pow2 (binade x - 52)" by (rule pow2_split53)
  show "2 ^ 52 \<le> \<bar>x\<bar> / pow2 (binade x - 52)"
    using binade_bounds(1)[OF assms] a by (simp add: pos_le_divide_eq pow2_pos)
  show "\<bar>x\<bar> / pow2 (binade x - 52) < 2 ^ 53"
    using binade_bounds(2)[OF assms] b by (simp add: pos_divide_less_eq pow2_pos)
qed

lemma fl_pos_bounds:
  assumes "0 < x"
  shows "pow2 (binade x) \<le> fl x" and "fl x \<le> pow2 (binade x + 1)"
proof -
  let ?u = "pow2 (binade x - 52)"
  have x: "x \<noteq> 0" using assms by simp
  have a: "pow2 (binade x) = 2 ^ 52 * ?u" by (rule pow2_split52)
  have b: "pow2 (binade x + 1) = 2 ^ 53 * ?u" by (rule pow2_split53)
  from significand_bounds[OF x] assms
  have "of_int (2 ^ 52) \<le> x / ?u" "x / ?u \<le> of_int (2 ^ 53)" by simp_all
  then have "2 ^ 52 \<le> round_ties_even (x / ?u)" "round_ties_even (x / ?u) \<le> 2 ^ 53"
    by (simp_all only: round_ties_even_ge round_ties_even_le)
  then have "(of_int (2 ^ 52) :: rat) \<le> of_int (round_ties_even (x / ?u))"
    "(of_int (round_ties_even (x / ?u)) :: rat) \<le> of_int (2 ^ 53)"
    by (simp_all only: of_int_le_iff)
  then have "2 ^ 52 * ?u \<le> of_int (round_ties_even (x / ?u)) * ?u"
    "of_int (round_ties_even (x / ?u)) * ?u \<le> 2 ^ 53 * ?u"
    by (simp_all add: mult_right_mono pow2_nonneg)
  then show "pow2 (binade x) \<le> fl x" and "fl x \<le> pow2 (binade x + 1)"
    using x a b by (simp_all add: fl_def Let_def)
qed

lemma fl_pos: "0 < x \<Longrightarrow> 0 < fl x"
  using fl_pos_bounds(1)[of x] pow2_pos[of "binade x"] by linarith

lemma fl_nonneg: "0 \<le> x \<Longrightarrow> 0 \<le> fl x"
  using fl_pos[of x] by (cases "x = 0") (simp_all add: less_le fl_0)

lemma fl_mono_pos:
  assumes "0 < x" and "x \<le> y"
  shows "fl x \<le> fl y"
proof -
  have y: "0 < y" using assms by simp
  have x0: "x \<noteq> 0" and y0: "y \<noteq> 0" using assms by auto
  have "pow2 (binade x) \<le> x" using binade_bounds(1)[OF x0] assms by simp
  also have "x \<le> y" by fact
  also have "y < pow2 (binade y + 1)" using binade_bounds(2)[OF y0] y by simp
  finally have "binade x < binade y + 1" by (simp add: pow2_less_iff)
  then consider "binade x = binade y" | "binade x + 1 \<le> binade y" by linarith
  then show ?thesis
  proof cases
    case 1
    let ?u = "pow2 (binade y - 52)"
    have "x / ?u \<le> y / ?u" by (rule divide_right_mono[OF assms(2)]) (rule pow2_nonneg)
    then have "round_ties_even (x / ?u) \<le> round_ties_even (y / ?u)" by (rule round_ties_even_mono)
    then have "(of_int (round_ties_even (x / ?u)) :: rat) \<le> of_int (round_ties_even (y / ?u))"
      by (simp only: of_int_le_iff)
    then have "of_int (round_ties_even (x / ?u)) * ?u \<le> of_int (round_ties_even (y / ?u)) * ?u"
      by (simp add: mult_right_mono pow2_nonneg)
    then show ?thesis using 1 x0 y0 by (simp add: fl_def Let_def)
  next
    case 2
    have "fl x \<le> pow2 (binade x + 1)" using fl_pos_bounds(2)[OF assms(1)] .
    also have "\<dots> \<le> pow2 (binade y)" using 2 by (rule pow2_mono)
    also have "\<dots> \<le> fl y" using fl_pos_bounds(1)[OF y] .
    finally show ?thesis .
  qed
qed

lemma fl_mono:
  assumes "x \<le> y"
  shows "fl x \<le> fl y"
proof -
  consider "0 < x" | "x \<le> 0" "0 \<le> y" | "y < 0" by linarith
  then show ?thesis
  proof cases
    case 1
    then show ?thesis using assms by (rule fl_mono_pos)
  next
    case 2
    have "0 \<le> fl (- x)" using 2(1) by (intro fl_nonneg) simp
    then have "fl x \<le> 0" by (simp add: fl_minus)
    also have "0 \<le> fl y" using 2(2) by (rule fl_nonneg)
    finally show ?thesis .
  next
    case 3
    have "fl (- y) \<le> fl (- x)" using 3 assms by (intro fl_mono_pos) simp_all
    then show ?thesis by (simp add: fl_minus)
  qed
qed

text \<open>A number with a significand below \<open>2 ^ 53\<close> is a double.\<close>

lemma fl_exact:
  assumes "\<bar>z\<bar> < 2 ^ 53"
  shows "fl (of_int z * pow2 j) = of_int z * pow2 j"
proof (cases "z = 0")
  case True
  then show ?thesis by (simp add: fl_0)
next
  case False
  define x :: rat where "x = of_int z * pow2 j"
  define u where "u = pow2 (binade x - 52)"
  have x0: "x \<noteq> 0" using False by (simp add: x_def pow2_nonzero)
  have u0: "u \<noteq> 0" by (simp add: u_def pow2_nonzero)
  have "(of_int \<bar>z\<bar> :: rat) < of_int (2 ^ 53)" using assms by (simp only: of_int_less_iff)
  then have "\<bar>of_int z :: rat\<bar> < 2 ^ 53" by simp
  then have "\<bar>x\<bar> < 2 ^ 53 * pow2 j" by (simp add: x_def abs_mult abs_pow2 pow2_pos)
  also have "\<dots> = pow2 (53 + j)" using pow2_add[of 53 j] pow2_nat[of 53] by simp
  finally have "pow2 (binade x) < pow2 (53 + j)" using binade_bounds(1)[OF x0] by simp
  then have le: "0 \<le> j - (binade x - 52)" by (simp add: pow2_less_iff)
  define n where "n = nat (j - (binade x - 52))"
  have "pow2 j = pow2 (int n + (binade x - 52))"
    using le by (intro arg_cong[where f = pow2]) (simp add: n_def)
  then have pj: "pow2 j = 2 ^ n * u"
    by (simp add: pow2_add pow2_nat u_def)
  have eq: "x / u = of_int (z * 2 ^ n)"
    using u0 by (simp add: x_def pj)
  have "fl x = of_int (round_ties_even (x / u)) * u"
    using x0 by (simp add: fl_def Let_def u_def)
  also have "\<dots> = of_int (z * 2 ^ n) * u"
    by (simp only: eq round_ties_even_of_int)
  also have "\<dots> = x"
    by (simp add: x_def pj)
  finally show ?thesis by (simp add: x_def)
qed

lemma fl_of_int: "\<bar>z\<bar> < 2 ^ 53 \<Longrightarrow> fl (of_int z) = of_int z"
  using fl_exact[of z 0] by (simp add: pow2_def)

lemma fl_error: "x \<noteq> 0 \<Longrightarrow> \<bar>fl x - x\<bar> \<le> pow2 (binade x - 53)"
proof -
  assume x: "x \<noteq> 0"
  let ?u = "pow2 (binade x - 52)"
  have "fl x - x = (of_int (round_ties_even (x / ?u)) - x / ?u) * ?u"
    using x by (simp add: fl_def Let_def left_diff_distrib pow2_nonzero)
  then have "\<bar>fl x - x\<bar> = \<bar>of_int (round_ties_even (x / ?u)) - x / ?u\<bar> * ?u"
    by (simp add: abs_mult abs_pow2)
  also have "\<dots> \<le> 1 / 2 * ?u"
    by (intro mult_right_mono round_ties_even_error less_imp_le pow2_pos)
  also have "\<dots> = pow2 (binade x - 53)"
    using pow2_add[of "-1" "binade x - 52"] by (simp add: pow2_def[of "-1"])
  finally show ?thesis .
qed

subsection \<open>Whole numbers and rounded percentages\<close>


lemma fl_numeral: "numeral w < (2 ^ 53 :: int) \<Longrightarrow> fl (numeral w) = numeral w"
  using fl_of_int[of "numeral w"] by simp

lemma fl_ge_numeral:
  assumes "numeral w \<le> x" and "numeral w < (2 ^ 53 :: int)"
  shows "numeral w \<le> fl x"
  using fl_mono[OF assms(1)] fl_numeral[OF assms(2)] by simp

lemma fl_le_numeral:
  assumes "x \<le> numeral w" and "numeral w < (2 ^ 53 :: int)"
  shows "fl x \<le> numeral w"
  using fl_mono[OF assms(1)] fl_numeral[OF assms(2)] by simp

lemma Math_round_of_int: "Math_round (of_int k) = k"
  unfolding Math_round_def by linarith

lemma Math_round_0: "Math_round 0 = 0"
  using Math_round_of_int[of 0] by simp



lemma Math_round_eqI:
  assumes "of_int m - 1 / 2 \<le> x" and "x < of_int m + 1 / 2"
  shows "Math_round x = m"
  unfolding Math_round_def using assms by linarith


lemma js_sub_100_whole:
  assumes "0 \<le> h" and "h \<le> 100"
  shows "js_sub 100 (of_int h) = of_int (100 - h)"
proof -
  have "\<bar>100 - h\<bar> < 2 ^ 53" using assms by simp
  then have "fl (of_int (100 - h)) = of_int (100 - h)" by (rule fl_of_int)
  then show ?thesis by (simp add: js_sub_def)
qed










lemma round_eqI:
  fixes x :: rat
  assumes "of_int m - 1 / 2 \<le> x" and "x < of_int m + 1 / 2"
  shows "round x = m"
  unfolding round_def using assms by linarith










lemma spec_share_2_of_3: "spec_share 2 3 = 67"
  unfolding spec_share_def by (rule round_eqI) simp_all

section \<open>The initial session check\<close>

lemma run_checks_failing:
  assumes "seen < MAX_SESSION_CHECK_ATTEMPTS"
  shows "run_checks seen (map CheckFails fs) s =
           (s\<lparr>sessionCheckAttempts := sessionCheckAttempts s + length fs,
              console := console s @ replicate (length fs) ''Session check error:''\<rparr>, True)"
  using assms
proof (induction fs arbitrary: s)
  case Nil
  then show ?case by simp
next
  case (Cons f fs)
  then show ?case
    by (simp add: checkUser_def console_log_def retry_calls_checkUser_def Let_def
        replicate_app_Cons_same)
qed

text \<open>
  Claim C1 says that after \<open>MAX_SESSION_CHECK_ATTEMPTS + 1\<close> consecutive failures of the
  initial session check the session is cleared and the page navigates to the landing
  route, each earlier failure scheduling a retry. The code compares the
  \<open>sessionCheckAttempts\<close> of the first render, which stays 0: after any number of
  consecutive failures, four included, the session is still loading, both storages are
  untouched, nothing was assigned to \<open>window.location.href\<close>, and a further retry is
  scheduled. Only the state counter has grown.
\<close>

theorem session_check_never_gives_up:
  "initial_session_check (map CheckFails fs) ls ss =
     ((initial_session ls ss)
        \<lparr>sessionCheckAttempts := length fs,
         console := replicate (length fs) ''Session check error:''\<rparr>, True)"
proof -
  have "sessionCheckAttempts (initial_session ls ss) < MAX_SESSION_CHECK_ATTEMPTS"
    by (simp add: initial_session_def MAX_SESSION_CHECK_ATTEMPTS_def)
  then show ?thesis
    unfolding initial_session_check_def
    by (simp add: run_checks_failing) (simp add: initial_session_def)
qed

text \<open>The run with four failures, written out.\<close>

lemma four_failures:
  "initial_session_check
     [CheckFails GetSessionRejects, CheckFails GetSessionRejects, CheckFails GetSessionRejects,
      CheckFails GetSessionRejects] [(''sb-auth-token'', ''t'')] [] =
   (\<lparr>user = None, loading = True, sessionCheckAttempts = 4,
     localStorage = [(''sb-auth-token'', ''t'')], sessionStorage = [], href_assigned = [],
     console = [''Session check error:'', ''Session check error:'', ''Session check error:'',
                ''Session check error:'']\<rparr>, True)"
  by (simp add: initial_session_check_def initial_session_def checkUser_def console_log_def
      retry_calls_checkUser_def MAX_SESSION_CHECK_ATTEMPTS_def Let_def)

text \<open>The branch that gives up is there; it needs a \<open>checkUser\<close> that sees the counter.\<close>

lemma checkUser_gives_up_when_seen:
  "MAX_SESSION_CHECK_ATTEMPTS \<le> seen \<Longrightarrow>
   checkUser seen (CheckFails e) s = (s', retry) \<Longrightarrow>
   user s' = None \<and> \<not> loading s' \<and> localStorage s' = [] \<and> sessionStorage s' = []
     \<and> href_assigned s' = href_assigned s @ [''/''] \<and> \<not> retry"
  by (auto simp add: checkUser_def handleSessionError_def clearSession_def console_log_def Let_def)

section \<open>signOut\<close>

text \<open>
  Claim C2: whatever the external sign-out call does (it rejects, it resolves with an
  error, it resolves without one), after \<open>signOut\<close> the user is none, \<open>loading\<close> is
  false, and \<open>localStorage\<close> and \<open>sessionStorage\<close> are empty.
\<close>

theorem signOut_always_clears:
  "user (signOut r s) = None \<and> loading (signOut r s) = False
     \<and> localStorage (signOut r s) = [] \<and> sessionStorage (signOut r s) = []"
  by (simp add: signOut_def clearSession_def)

section \<open>signUp\<close>

lemma map_of_spread:
  "map_of (spread obj src) k =
     (case map_of (rev src) k of None \<Rightarrow> map_of obj k | Some v \<Rightarrow> Some v)"
  unfolding spread_def
proof (induction src arbitrary: obj)
  case Nil
  then show ?case by simp
next
  case (Cons p src)
  obtain a b where p: "p = (a, b)" by (cases p)
  show ?case
    by (simp add: p Cons.IH update_conv' map_add_def split: option.splits)
qed

lemma signUp_success:
  assumes "signUp svc email password userData farmers = (Inr (), farmers')"
  shows "farmers' = farmers @ [farmer_row email password userData]"
  using assms by (auto simp add: signUp_def split: option.splits)

text \<open>
  Claim C10, amended: for every successful \<open>signUp\<close> whose profile object has no
  \<open>password\<close> and no \<open>email\<close> member of its own, the row inserted into \<open>farmers\<close>
  holds the plaintext password exactly as the caller supplied it, the email, and every
  member of the profile.
\<close>

theorem signUp_stores_plaintext_password:
  assumes "signUp svc email password userData farmers = (Inr (), farmers')"
    and "''password'' \<notin> fst ` set userData"
    and "''email'' \<notin> fst ` set userData"
    and "distinct (map fst userData)"
  shows "\<exists>row. farmers' = farmers @ [row]
           \<and> map_of row ''password'' = Some password
           \<and> map_of row ''email'' = Some email
           \<and> (\<forall>(k, v) \<in> set userData. map_of row k = Some v)"
proof -
  let ?row = "farmer_row email password userData"
  have none: "k \<notin> fst ` set userData \<Longrightarrow> map_of (rev userData) k = None" for k
    by (simp add: map_of_eq_None_iff)
  have "map_of ?row ''password'' = Some password" "map_of ?row ''email'' = Some email"
    using assms(2,3) by (simp_all add: farmer_row_def map_of_spread none)
  moreover have "map_of ?row k = Some v" if "(k, v) \<in> set userData" for k v
  proof -
    have "map_of (rev userData) k = Some v"
      using that assms(4) by (simp add: distinct_rev rev_map [symmetric])
    then show ?thesis by (simp add: farmer_row_def map_of_spread)
  qed
  ultimately show ?thesis using signUp_success[OF assms(1)] by auto
qed

text \<open>
  Claim C10 as stated fails when the profile object has a \<open>password\<close> (or \<open>email\<close>)
  member: the spread comes last in the object literal, so the inserted row holds the
  profile's values, not the \<open>password\<close> and \<open>email\<close> arguments.
\<close>

theorem signUp_profile_password_wins:
  "fst (signUp accepting_service ''asha@example.org'' ''secret''
          [(''name'', ''Asha''), (''password'', ''other''), (''email'', ''a@example.org'')] [])
     = Inr ()
   \<and> snd (signUp accepting_service ''asha@example.org'' ''secret''
          [(''name'', ''Asha''), (''password'', ''other''), (''email'', ''a@example.org'')] [])
     = [[(''email'', ''a@example.org''), (''password'', ''other''), (''name'', ''Asha'')]]"
  by (simp add: signUp_def accepting_service_def farmer_row_def spread_def)

theorem signUp_stores_plaintext_password_witness:
  "signUp accepting_service ''asha@example.org'' ''secret'' [(''name'', ''Asha'')] []
      = (Inr (), [[(''email'', ''asha@example.org''), (''password'', ''secret''), (''name'', ''Asha'')]])
   \<and> (\<exists>row. [[(''email'', ''asha@example.org''), (''password'', ''secret''), (''name'', ''Asha'')]] = [] @ [row]
           \<and> map_of row ''password'' = Some ''secret''
           \<and> map_of row ''email'' = Some ''asha@example.org''
           \<and> map_of row ''name'' = Some ''Asha'')"
proof -
  have r: "signUp accepting_service ''asha@example.org'' ''secret'' [(''name'', ''Asha'')] []
      = (Inr (), [[(''email'', ''asha@example.org''), (''password'', ''secret''), (''name'', ''Asha'')]])"
    by (simp add: signUp_def accepting_service_def farmer_row_def spread_def)
  from signUp_stores_plaintext_password[OF r] show ?thesis
    using r by simp
qed

section \<open>Fetching the dashboard data\<close>

lemma fetch_resolved:
  assumes "select_lands svc (farmer_id f) = Response landsData e1"
    and "select_plants svc (map lid (or_empty landsData)) = Response plantsData e2"
    and "select_treatments svc (farmer_id f) = Response treatmentsData e3"
    and "select_diagnoses svc (farmer_id f) = Response diagnosesData e4"
  shows "fetchDashboardData (Some f) svc d =
           d\<lparr>lands := or_empty landsData, treatments := or_empty treatmentsData,
             diagnoses := or_empty diagnosesData,
             stats := calculate_stats landsData plantsData treatmentsData\<rparr>"
  using assms by (simp add: fetchDashboardData_def)

text \<open>A query that rejects reaches the \<open>catch\<close> block: the error is logged and the state
  is as before.\<close>

lemma fetch_rejected:
  assumes "select_lands svc (farmer_id f) = Rejects e
           \<or> select_plants svc (map lid (or_empty (case select_lands svc (farmer_id f) of
                  Rejects e' \<Rightarrow> None | Response l e' \<Rightarrow> l))) = Rejects e
           \<or> select_treatments svc (farmer_id f) = Rejects e
           \<or> select_diagnoses svc (farmer_id f) = Rejects e"
  shows "fetchDashboardData (Some f) svc d = caught d"
  using assms by (auto simp add: fetchDashboardData_def split: awaited.splits)

lemma caught_keeps_state:
  "stats (caught d) = stats d \<and> lands (caught d) = lands d \<and> treatments (caught d) = treatments d
     \<and> diagnoses (caught d) = diagnoses d
     \<and> errors_logged (caught d) = errors_logged d @ [''Error fetching dashboard data:'']"
  by (simp add: caught_def)

text \<open>
  Claim C3 says that a fetch cycle in which one of the four queries fails with an error
  logs the error and leaves \<open>stats\<close>, \<open>lands\<close>, \<open>treatments\<close> and \<open>diagnoses\<close> as they were.
  A query of the external service that fails resolves to a response whose \<open>error\<close> is set
  and whose \<open>data\<close> is \<open>null\<close>; \<open>AuthContext.tsx\<close> reads that \<open>error\<close>, \<open>fetchDashboardData\<close>
  reads only \<open>data\<close>. When the lands query fails in this way and the other three
  resolve, nothing is logged, \<open>lands\<close> becomes empty whatever it held, and the statistics
  are recomputed from no lands.
\<close>

theorem fetch_error_overwrites_state:
  "fetchDashboardData (Some f)
     (answering_service (Response None (Some e)) (Response plantsData e2)
        (Response treatmentsData e3) (Response diagnosesData e4)) d =
   d\<lparr>lands := [], treatments := or_empty treatmentsData, diagnoses := or_empty diagnosesData,
     stats := calculate_stats None plantsData treatmentsData\<rparr>"
  by (simp add: fetchDashboardData_def answering_service_def or_empty_def)

text \<open>The same on a dashboard that holds one land: the land is gone, nothing is logged.\<close>

lemma fetch_error_loses_lands:
  "lands (fetchDashboardData (Some farmer_asha)
            (answering_service (Response None (Some ''permission denied'')) (Response (Some []) None)
               (Response (Some []) None) (Response (Some []) None))
            (initial_dashboard\<lparr>lands := [\<lparr>lid = ''l-1'', location = ''North field'', acres = 3\<rparr>]\<rparr>))
     = []
   \<and> errors_logged (fetchDashboardData (Some farmer_asha)
            (answering_service (Response None (Some ''permission denied'')) (Response (Some []) None)
               (Response (Some []) None) (Response (Some []) None))
            (initial_dashboard\<lparr>lands := [\<lparr>lid = ''l-1'', location = ''North field'', acres = 3\<rparr>]\<rparr>))
     = []"
  by (simp add: fetchDashboardData_def answering_service_def or_empty_def initial_dashboard_def)

text \<open>
  Claim C9: when the four queries resolve, the derived \<open>activeTreatments\<close> and
  \<open>completedTreatments\<close> add up to the number of fetched treatment records, which are
  the records the component then holds.
\<close>

theorem active_plus_completed_is_total:
  assumes "select_lands svc (farmer_id f) = Response landsData e1"
    and "select_plants svc (map lid (or_empty landsData)) = Response plantsData e2"
    and "select_treatments svc (farmer_id f) = Response treatmentsData e3"
    and "select_diagnoses svc (farmer_id f) = Response diagnosesData e4"
  shows "activeTreatments (stats (fetchDashboardData (Some f) svc d))
           + completedTreatments (stats (fetchDashboardData (Some f) svc d))
         = length (or_empty treatmentsData)
       \<and> treatments (fetchDashboardData (Some f) svc d) = or_empty treatmentsData"
  unfolding fetch_resolved[OF assms]
  by (simp add: calculate_stats_def sum_length_filter_compl add.commute)

theorem active_plus_completed_is_total_witness:
  "activeTreatments (stats (fetchDashboardData (Some farmer_asha)
      (answering_service (Response (Some []) None) (Response (Some []) None)
         (Response (Some [treatment_named ''Copper Sulfate'' True,
                          treatment_named ''Neem Oil'' False,
                          treatment_named ''Copper Oxychloride'' True]) None)
         (Response (Some []) None)) initial_dashboard))
   + completedTreatments (stats (fetchDashboardData (Some farmer_asha)
      (answering_service (Response (Some []) None) (Response (Some []) None)
         (Response (Some [treatment_named ''Copper Sulfate'' True,
                          treatment_named ''Neem Oil'' False,
                          treatment_named ''Copper Oxychloride'' True]) None)
         (Response (Some []) None)) initial_dashboard)) = 3"
proof -
  let ?ts = "[treatment_named ''Copper Sulfate'' True, treatment_named ''Neem Oil'' False,
              treatment_named ''Copper Oxychloride'' True]"
  let ?svc = "answering_service (Response (Some []) None) (Response (Some []) None)
         (Response (Some ?ts) None) (Response (Some []) None)"
  have a1: "select_lands ?svc (farmer_id farmer_asha) = Response (Some []) None"
    by (simp add: answering_service_def)
  have a2: "select_plants ?svc (map lid (or_empty (Some []))) = Response (Some []) None"
    by (simp add: answering_service_def)
  have a3: "select_treatments ?svc (farmer_id farmer_asha) = Response (Some ?ts) None"
    by (simp add: answering_service_def)
  have a4: "select_diagnoses ?svc (farmer_id farmer_asha) = Response (Some []) None"
    by (simp add: answering_service_def)
  note a = a1 a2 a3 a4
  have "length (or_empty (Some ?ts)) = 3" by (simp add: or_empty_def)
  with active_plus_completed_is_total[OF a, of initial_dashboard]
  show ?thesis by (simp only:)
qed

section \<open>The average disease percentage\<close>

lemma avgDiseasePercentage_fold:
  "avgDiseasePercentage plantsData =
     (if or_empty plantsData = [] then 0
      else js_div (foldl js_add 0 (map disease_or_0 (or_empty plantsData)))
             (of_nat (length (or_empty plantsData))))"
  by (cases plantsData) (simp_all add: avgDiseasePercentage_def or_empty_def foldl_map)

text \<open>Whole numbers add up exactly while the sum stays below \<open>2 ^ 53\<close>.\<close>

lemma foldl_js_add_whole:
  assumes "\<forall>x\<in>set xs. \<exists>k. 0 \<le> k \<and> k \<le> 100 \<and> x = of_int k"
    and "0 \<le> a" and "a + 100 * int (length xs) < 2 ^ 53"
  shows "foldl js_add (of_int a) xs = of_int a + sum_list xs"
  using assms
proof (induction xs arbitrary: a)
  case Nil
  then show ?case by simp
next
  case (Cons x xs)
  from Cons.prems(1) obtain k where k: "0 \<le> k" "k \<le> 100" "x = of_int k" by auto
  from Cons.prems(1) have rest: "\<forall>x\<in>set xs. \<exists>k. 0 \<le> k \<and> k \<le> 100 \<and> x = of_int k" by simp
  have "\<bar>a + k\<bar> < 2 ^ 53" using Cons.prems(2,3) k(1,2) by simp
  then have "fl (of_int (a + k)) = of_int (a + k)" by (rule fl_of_int)
  then have step: "js_add (of_int a) x = of_int (a + k)"
    by (simp add: js_add_def k(3))
  have "0 \<le> a + k" using Cons.prems(2) k(1) by simp
  moreover have "a + k + 100 * int (length xs) < 2 ^ 53" using Cons.prems(3) k(2) by simp
  ultimately have ih: "foldl js_add (of_int (a + k)) xs = of_int (a + k) + sum_list xs"
    using rest by (intro Cons.IH)
  have "foldl js_add (of_int a) (x # xs) = foldl js_add (js_add (of_int a) x) xs" by simp
  also have "\<dots> = of_int (a + k) + sum_list xs" by (simp only: step ih)
  also have "\<dots> = of_int a + sum_list (x # xs)" by (simp add: k(3))
  finally show ?case .
qed

lemma sum_list_whole:
  assumes "\<forall>x\<in>set xs. \<exists>k. 0 \<le> k \<and> k \<le> 100 \<and> x = of_int k"
  shows "\<exists>T. 0 \<le> T \<and> T \<le> 100 * int (length xs) \<and> sum_list xs = (of_int T :: rat)"
  using assms
proof (induction xs)
  case Nil
  then show ?case by simp
next
  case (Cons x xs)
  from Cons.prems obtain k where k: "0 \<le> k" "k \<le> 100" "x = of_int k" by auto
  from Cons.prems have "\<forall>x\<in>set xs. \<exists>k. 0 \<le> k \<and> k \<le> 100 \<and> x = of_int k" by simp
  from Cons.IH[OF this] obtain T where
    T: "0 \<le> T" "T \<le> 100 * int (length xs)" "sum_list xs = (of_int T :: rat)" by blast
  have "0 \<le> k + T" "k + T \<le> 100 * int (length (x # xs))"
    "sum_list (x # xs) = (of_int (k + T) :: rat)"
    using k T by simp_all
  then show ?case by blast
qed

text \<open>The quotient of a whole sum of percentages by the number of records rounds to the
  same integer before and after it is rounded to a double.\<close>

lemma mean_rounding:
  assumes "0 \<le> T" and "T \<le> 100 * int n" and "0 < n" and "n < 2 ^ 32"
  shows "Math_round (fl (of_int T / of_nat n)) = round (of_int T / of_nat n :: rat)"
proof (cases "T = 0")
  case True
  then show ?thesis by (simp add: fl_0 Math_round_0)
next
  case False
  define q :: rat where "q = of_int T / of_nat n"
  define k where "k = round q"
  have npos: "(0 :: rat) < of_nat n" using assms(3) by simp
  have qpos: "0 < q" using False assms(1,3) by (simp add: q_def)
  have "(of_int T :: rat) \<le> of_int (100 * int n)" using assms(2) by (simp only: of_int_le_iff)
  then have q100: "q \<le> 100" using npos by (simp add: q_def pos_divide_le_eq)
  have kq: "of_int k - 1 / 2 \<le> q" "q < of_int k + 1 / 2"
    unfolding k_def round_def by linarith+
  have k_bounds: "0 \<le> k" "k \<le> 100"
    using kq qpos q100 by linarith+
  \<comment> \<open>from below: \<open>k - 1/2\<close> is a double\<close>
  have "\<bar>2 * k - 1\<bar> < 2 ^ 53" using k_bounds by simp
  then have "fl (of_int (2 * k - 1) * pow2 (- 1)) = of_int (2 * k - 1) * pow2 (- 1)"
    by (rule fl_exact)
  moreover have "of_int (2 * k - 1) * pow2 (- 1) = (of_int k :: rat) - 1 / 2"
    by (simp add: pow2_def algebra_simps)
  ultimately have half: "fl (of_int k - 1 / 2) = of_int k - 1 / 2"
    by (simp only:)
  have lower: "of_int k - 1 / 2 \<le> fl q"
    using fl_mono[OF kq(1)] by (simp only: half)
  \<comment> \<open>from above: the quotient stays away from \<open>k + 1/2\<close> by more than the rounding error\<close>
  have qn: "q * of_nat n = of_int T" using npos by (simp add: q_def)
  have "q * of_nat n < (of_int k + 1 / 2) * of_nat n"
    using kq(2) npos by (rule mult_strict_right_mono)
  then have "(of_int (T * 2) :: rat) < of_int ((2 * k + 1) * int n)"
    unfolding qn by (simp add: algebra_simps)
  then have "T * 2 < (2 * k + 1) * int n" by (simp only: of_int_less_iff)
  then have "T * 2 + 1 \<le> (2 * k + 1) * int n" by simp
  then have "(of_int (T * 2 + 1) :: rat) \<le> of_int ((2 * k + 1) * int n)" by (simp only: of_int_le_iff)
  then have "q * of_nat n * 2 + 1 \<le> (of_int k + 1 / 2) * (2 * of_nat n)"
    unfolding qn by (simp add: algebra_simps)
  moreover have "(q + 1 / (2 * of_nat n)) * (2 * of_nat n) = q * of_nat n * 2 + 1"
    using npos by (simp add: algebra_simps)
  ultimately have "(q + 1 / (2 * of_nat n)) * (2 * of_nat n) \<le> (of_int k + 1 / 2) * (2 * of_nat n)"
    by (simp only:)
  then have gap: "q + 1 / (2 * of_nat n) \<le> of_int k + 1 / 2"
    using npos by (simp only: mult_le_cancel_right)
  have "pow2 (binade q) \<le> q" using binade_bounds(1)[of q] qpos by simp
  also have "q < pow2 7" using q100 by (simp add: pow2_def)
  finally have "binade q - 53 \<le> - 47" by (simp add: pow2_less_iff)
  then have "pow2 (binade q - 53) \<le> pow2 (- 47)" by (rule pow2_mono)
  moreover have "\<bar>fl q - q\<bar> \<le> pow2 (binade q - 53)" using qpos by (intro fl_error) simp
  ultimately have err: "fl q \<le> q + 1 / 2 ^ 47" by (simp add: pow2_def)
  have "(of_nat n :: rat) < of_nat (2 ^ 32)" using assms(4) by (simp only: of_nat_less_iff)
  then have "(2 :: rat) * of_nat n < 2 ^ 47" by simp
  moreover have "(0 :: rat) < 2 * of_nat n" using npos by simp
  ultimately have "1 / 2 ^ 47 < 1 / (2 * (of_nat n :: rat))"
    by (simp only: frac_less2 zero_less_one order_refl one_le_numeral)
  with err gap have upper: "fl q < of_int k + 1 / 2" by linarith
  have "Math_round (fl q) = k"
    unfolding Math_round_def using lower upper by linarith
  then show ?thesis by (simp add: q_def k_def)
qed

lemma whole_percentages_mean:
  assumes "\<forall>x\<in>set xs. \<exists>k. 0 \<le> k \<and> k \<le> 100 \<and> x = of_int k"
    and "xs \<noteq> []" and "length xs < 2 ^ 32"
  shows "Math_round (js_div (foldl js_add 0 xs) (of_nat (length xs)))
           = round (sum_list xs / of_nat (length xs))"
proof -
  obtain T where T: "0 \<le> T" "T \<le> 100 * int (length xs)" "sum_list xs = (of_int T :: rat)"
    using sum_list_whole[OF assms(1)] by blast
  have "int (length xs) < int (2 ^ 32)" using assms(3) by (simp only: of_nat_less_iff)
  then have "0 + 100 * int (length xs) < 2 ^ 53" by simp
  from foldl_js_add_whole[OF assms(1) _ this]
  have "foldl js_add 0 xs = of_int T" using T(3) by simp
  then have "js_div (foldl js_add 0 xs) (of_nat (length xs)) = fl (of_int T / of_nat (length xs))"
    by (simp add: js_div_def)
  then show ?thesis
    using mean_rounding[OF T(1,2) _ assms(3)] assms(2) by (simp add: T(3))
qed

lemma whole_percentage_value:
  assumes "whole_percentage p"
  shows "\<exists>k. 0 \<le> k \<and> k \<le> 100 \<and> disease_or_0 p = of_int k"
proof (cases "disease_percentage p")
  case None
  then have "disease_or_0 p = of_int 0" by (simp add: disease_or_0_def)
  then show ?thesis by (intro exI[of _ 0]) simp
next
  case (Some v)
  have "0 \<le> v \<and> v \<le> 100 \<and> of_int \<lfloor>v\<rfloor> = v"
    using assms unfolding whole_percentage_def Some by (simp only: option.case)
  then have v: "0 \<le> v" "v \<le> 100" "of_int \<lfloor>v\<rfloor> = v" by blast+
  have "0 \<le> \<lfloor>v\<rfloor>" "\<lfloor>v\<rfloor> \<le> 100" using v(1,2) by linarith+
  moreover have "disease_or_0 p = of_int \<lfloor>v\<rfloor>"
    by (simp only: disease_or_0_def Some option.case v(3))
  ultimately show ?thesis by blast
qed

lemma disease_or_0_spec_value: "map disease_or_0 ps = map spec_value ps"
  by (simp add: disease_or_0_def spec_value_def)

text \<open>The doubles nearest to 99.4, 49.3, 21.6 and 15.7, and their sum as the program adds
  it up: the sum of the doubles is above 186, the program's is below.\<close>

lemma double_99_4: "fl 99.4 = 3497326585629901 / 2 ^ 45"
proof -
  have "fl 99.4 = of_int 6994653171259802 * pow2 (6 - 52)"
    by (rule fl_eqI) (simp_all add: pow2_def)
  then show ?thesis by (simp add: pow2_def)
qed

lemma double_49_3: "fl 49.3 = 3469179087958835 / 2 ^ 46"
proof -
  have "fl 49.3 = of_int 6938358175917670 * pow2 (5 - 52)"
    by (rule fl_eqI) (simp_all add: pow2_def)
  then show ?thesis by (simp add: pow2_def)
qed

lemma double_21_6: "fl 21.6 = 3039929748475085 / 2 ^ 47"
proof -
  have "fl 21.6 = of_int 6079859496950170 * pow2 (4 - 52)"
    by (rule fl_eqI) (simp_all add: pow2_def)
  then show ?thesis by (simp add: pow2_def)
qed

lemma double_15_7: "fl 15.7 = 4419157134357299 / 2 ^ 48"
proof -
  have "fl 15.7 = of_int 8838314268714598 * pow2 (3 - 52)"
    by (rule fl_eqI) (simp_all add: pow2_def)
  then show ?thesis by (simp add: pow2_def)
qed

lemma sum_step_1: "js_add 0 (3497326585629901 / 2 ^ 45) = 3497326585629901 / 2 ^ 45"
proof -
  have "fl (of_int 3497326585629901 * pow2 (- 45)) = of_int 3497326585629901 * pow2 (- 45)"
    by (rule fl_exact) simp
  then show ?thesis by (simp add: js_add_def pow2_def)
qed

lemma sum_step_2:
  "js_add (3497326585629901 / 2 ^ 45) (3469179087958835 / 2 ^ 46) = 5231916129609318 / 2 ^ 45"
proof -
  have "fl (3497326585629901 / 2 ^ 45 + 3469179087958835 / 2 ^ 46)
          = of_int 5231916129609318 * pow2 (7 - 52)"
    by (rule fl_eqI_even) (simp_all add: pow2_def)
  then show ?thesis by (simp add: js_add_def pow2_def)
qed

lemma sum_step_3:
  "js_add (5231916129609318 / 2 ^ 45) (3039929748475085 / 2 ^ 47) = 5991898566728089 / 2 ^ 45"
proof -
  have "fl (5231916129609318 / 2 ^ 45 + 3039929748475085 / 2 ^ 47)
          = of_int 5991898566728089 * pow2 (7 - 52)"
    by (rule fl_eqI) (simp_all add: pow2_def)
  then show ?thesis by (simp add: js_add_def pow2_def)
qed

lemma sum_step_4:
  "js_add (5991898566728089 / 2 ^ 45) (4419157134357299 / 2 ^ 48) = 6544293208522751 / 2 ^ 45"
proof -
  have "fl (5991898566728089 / 2 ^ 45 + 4419157134357299 / 2 ^ 48)
          = of_int 6544293208522751 * pow2 (7 - 52)"
    by (rule fl_eqI) (simp_all add: pow2_def)
  then show ?thesis by (simp add: js_add_def pow2_def)
qed

lemma quotient_by_4: "js_div (6544293208522751 / 2 ^ 45) 4 = 6544293208522751 / 2 ^ 47"
proof -
  have "fl (of_int 6544293208522751 * pow2 (- 47)) = of_int 6544293208522751 * pow2 (- 47)"
    by (rule fl_exact) simp
  then show ?thesis by (simp add: js_div_def pow2_def)
qed

lemma avgDiseasePercentage_of_four:
  "avgDiseasePercentage (Some [plant_with a, plant_with b, plant_with c, plant_with d])
     = js_div (js_add (js_add (js_add (js_add 0 a) b) c) d) 4"
  by (simp add: avgDiseasePercentage_def plant_with_def disease_or_0_def)

lemma fractional_average:
  "Math_round (avgDiseasePercentage
     (Some [plant_with (fl 99.4), plant_with (fl 49.3), plant_with (fl 21.6), plant_with (fl 15.7)]))
   = 46"
proof -
  have "avgDiseasePercentage
     (Some [plant_with (fl 99.4), plant_with (fl 49.3), plant_with (fl 21.6), plant_with (fl 15.7)])
     = 6544293208522751 / 2 ^ 47"
    by (simp only: avgDiseasePercentage_of_four double_99_4 double_49_3 double_21_6 double_15_7
        sum_step_1 sum_step_2 sum_step_3 sum_step_4 quotient_by_4)
  moreover have "Math_round (6544293208522751 / 2 ^ 47) = 46"
    by (rule Math_round_eqI) simp_all
  ultimately show ?thesis by (simp only:)
qed

lemma fractional_mean:
  "spec_average
     [plant_with (fl 99.4), plant_with (fl 49.3), plant_with (fl 21.6), plant_with (fl 15.7)] = 47"
proof -
  have "round ((3497326585629901 / 2 ^ 45 + 3469179087958835 / 2 ^ 46
                + 3039929748475085 / 2 ^ 47 + 4419157134357299 / 2 ^ 48) / 4 :: rat) = 47"
    by (rule round_eqI) simp_all
  then show ?thesis
    unfolding double_99_4 double_49_3 double_21_6 double_15_7
    by (simp add: spec_average_def spec_value_def plant_with_def)
qed

text \<open>
  Claim C5, amended: after a fetch cycle whose plant records hold whole-number
  percentages from 0 to 100 (a record without a value counting 0; an array holds fewer
  than \<open>2 ^ 32\<close> records), \<open>averageDiseasePercentage\<close> is the arithmetic mean of the
  records' values rounded to the nearest integer. It is 0 for the empty set, and 40
  when every record has the value 40.
\<close>

theorem average_disease_percentage:
  assumes "select_lands svc (farmer_id f) = Response landsData e1"
    and "select_plants svc (map lid (or_empty landsData)) = Response plantsData e2"
    and "select_treatments svc (farmer_id f) = Response treatmentsData e3"
    and "select_diagnoses svc (farmer_id f) = Response diagnosesData e4"
    and "length (or_empty plantsData) < 2 ^ 32"
    and "\<forall>p\<in>set (or_empty plantsData). whole_percentage p"
  shows "averageDiseasePercentage (stats (fetchDashboardData (Some f) svc d))
           = spec_average (or_empty plantsData)
       \<and> (or_empty plantsData = []
          \<longrightarrow> averageDiseasePercentage (stats (fetchDashboardData (Some f) svc d)) = 0)
       \<and> (or_empty plantsData \<noteq> [] \<and> (\<forall>p\<in>set (or_empty plantsData). disease_percentage p = Some 40)
          \<longrightarrow> averageDiseasePercentage (stats (fetchDashboardData (Some f) svc d)) = 40)"
proof -
  let ?ps = "or_empty plantsData"
  let ?avg = "averageDiseasePercentage (stats (fetchDashboardData (Some f) svc d))"
  have avg: "?avg = Math_round (avgDiseasePercentage plantsData)"
    unfolding fetch_resolved[OF assms(1-4)] by (simp add: calculate_stats_def)
  have mean: "?avg = spec_average ?ps"
  proof (cases "?ps = []")
    case True
    then show ?thesis by (simp add: avg avgDiseasePercentage_fold Math_round_0 spec_average_def)
  next
    case False
    have "\<forall>x\<in>set (map disease_or_0 ?ps). \<exists>k. 0 \<le> k \<and> k \<le> 100 \<and> x = of_int k"
      using assms(6) whole_percentage_value by auto
    from whole_percentages_mean[OF this] False assms(5)
    have "Math_round (js_div (foldl js_add 0 (map disease_or_0 ?ps)) (of_nat (length ?ps)))
            = round (sum_list (map disease_or_0 ?ps) / of_nat (length ?ps))"
      by simp
    then show ?thesis
      using False by (simp add: avg avgDiseasePercentage_fold spec_average_def disease_or_0_spec_value)
  qed
  have empty: "?avg = 0" if "?ps = []"
    using that by (simp add: mean spec_average_def)
  have forty: "?avg = 40" if "?ps \<noteq> []" and "\<forall>p\<in>set ?ps. disease_percentage p = Some 40"
  proof -
    have v: "map spec_value ?ps = replicate (length ?ps) 40"
      using that(2) by (intro replicate_eqI) (auto simp add: spec_value_def)
    have "?avg = round (sum_list (replicate (length ?ps) 40) / of_nat (length ?ps) :: rat)"
      using that(1) by (simp add: mean spec_average_def v)
    also have "\<dots> = round (40 :: rat)" using that(1) by (simp add: sum_list_replicate)
    also have "\<dots> = 40" by (metis of_int_numeral round_of_int)
    finally show ?thesis .
  qed
  from mean empty forty show ?thesis by blast
qed

theorem average_disease_percentage_witness:
  "averageDiseasePercentage (stats (fetchDashboardData (Some farmer_asha)
      (answering_service (Response (Some []) None)
         (Response (Some [plant_with 40, plant_with 40, plant_with 40]) None)
         (Response (Some []) None) (Response (Some []) None)) initial_dashboard)) = 40
   \<and> averageDiseasePercentage (stats (fetchDashboardData (Some farmer_asha)
      (answering_service (Response (Some []) None)
         (Response (Some [plant_with 10, plant_with 25, plant_with 30]) None)
         (Response (Some []) None) (Response (Some []) None)) initial_dashboard)) = 22"
proof -
  let ?svc = "answering_service (Response (Some []) None)
         (Response (Some [plant_with 40, plant_with 40, plant_with 40]) None)
         (Response (Some []) None) (Response (Some []) None)"
  let ?mix = "answering_service (Response (Some []) None)
         (Response (Some [plant_with 10, plant_with 25, plant_with 30]) None)
         (Response (Some []) None) (Response (Some []) None)"
  have a1: "select_lands ?svc (farmer_id farmer_asha) = Response (Some []) None"
    by (simp add: answering_service_def)
  have a2: "select_plants ?svc (map lid (or_empty (Some []))) =
       Response (Some [plant_with 40, plant_with 40, plant_with 40]) None"
    by (simp add: answering_service_def)
  have a3: "select_treatments ?svc (farmer_id farmer_asha) = Response (Some []) None"
    by (simp add: answering_service_def)
  have a4: "select_diagnoses ?svc (farmer_id farmer_asha) = Response (Some []) None"
    by (simp add: answering_service_def)
  have a5: "length (or_empty (Some [plant_with 40, plant_with 40, plant_with 40])) < 2 ^ 32"
    by (simp add: or_empty_def)
  have a6: "\<forall>p\<in>set (or_empty (Some [plant_with 40, plant_with 40, plant_with 40])). whole_percentage p"
    by (simp add: or_empty_def plant_with_def whole_percentage_def)
  note a = a1 a2 a3 a4 a5 a6
  have b1: "select_lands ?mix (farmer_id farmer_asha) = Response (Some []) None"
    by (simp add: answering_service_def)
  have b2: "select_plants ?mix (map lid (or_empty (Some []))) =
       Response (Some [plant_with 10, plant_with 25, plant_with 30]) None"
    by (simp add: answering_service_def)
  have b3: "select_treatments ?mix (farmer_id farmer_asha) = Response (Some []) None"
    by (simp add: answering_service_def)
  have b4: "select_diagnoses ?mix (farmer_id farmer_asha) = Response (Some []) None"
    by (simp add: answering_service_def)
  have b5: "length (or_empty (Some [plant_with 10, plant_with 25, plant_with 30])) < 2 ^ 32"
    by (simp add: or_empty_def)
  have b6: "\<forall>p\<in>set (or_empty (Some [plant_with 10, plant_with 25, plant_with 30])). whole_percentage p"
    by (simp add: or_empty_def plant_with_def whole_percentage_def)
  note b = b1 b2 b3 b4 b5 b6
  have m: "spec_average (or_empty (Some [plant_with 10, plant_with 25, plant_with 30])) = 22"
  proof -
    have "round (65 / 3 :: rat) = 22" by (rule round_eqI) simp_all
    then show ?thesis by (simp add: spec_average_def spec_value_def plant_with_def or_empty_def)
  qed
  have c: "or_empty (Some [plant_with 40, plant_with 40, plant_with 40]) \<noteq> []
      \<and> (\<forall>p\<in>set (or_empty (Some [plant_with 40, plant_with 40, plant_with 40])).
            disease_percentage p = Some 40)"
    by (simp add: or_empty_def plant_with_def)
  from average_disease_percentage[OF a, of initial_dashboard] c
  have "averageDiseasePercentage (stats (fetchDashboardData (Some farmer_asha) ?svc initial_dashboard))
          = 40"
    by blast
  moreover from average_disease_percentage[OF b, of initial_dashboard]
  have "averageDiseasePercentage (stats (fetchDashboardData (Some farmer_asha) ?mix initial_dashboard))
          = spec_average (or_empty (Some [plant_with 10, plant_with 25, plant_with 30]))"
    by blast
  ultimately show ?thesis by (simp only: m)
qed

text \<open>
  Claim C5 as stated fails for percentages that are not whole numbers. For four records
  with the values 99.4, 49.3, 21.6 and 15.7 (the doubles nearest to them) the program
  adds up to a sum just below 186 and gives 46; the arithmetic mean of the four values
  is above 46.5 and rounds to 47.
\<close>

theorem average_of_fractional_percentages:
  "averageDiseasePercentage (stats (fetchDashboardData (Some farmer_asha)
      (answering_service (Response (Some []) None)
         (Response (Some [plant_with (fl 99.4), plant_with (fl 49.3), plant_with (fl 21.6),
                          plant_with (fl 15.7)]) None)
         (Response (Some []) None) (Response (Some []) None)) initial_dashboard)) = 46
   \<and> spec_average
       [plant_with (fl 99.4), plant_with (fl 49.3), plant_with (fl 21.6), plant_with (fl 15.7)] = 47"
proof -
  have "averageDiseasePercentage (stats (fetchDashboardData (Some farmer_asha)
      (answering_service (Response (Some []) None)
         (Response (Some [plant_with (fl 99.4), plant_with (fl 49.3), plant_with (fl 21.6),
                          plant_with (fl 15.7)]) None)
         (Response (Some []) None) (Response (Some []) None)) initial_dashboard))
    = Math_round (avgDiseasePercentage
        (Some [plant_with (fl 99.4), plant_with (fl 49.3), plant_with (fl 21.6),
               plant_with (fl 15.7)]))"
    by (simp add: fetchDashboardData_def answering_service_def calculate_stats_def)
  then show ?thesis by (simp only: fractional_average fractional_mean)
qed

section \<open>The crop-health donut\<close>





section \<open>The 30-day health trend\<close>

text \<open>The improvement: five per completed treatment, at most 30.\<close>

lemma improvement_exact: "min 30 (js_mul (of_nat c) 5) = of_int (min 30 (5 * int c))"
proof (cases "c < 6")
  case True
  then have "\<bar>5 * int c\<bar> < 2 ^ 53" by simp
  then have "fl (of_int (5 * int c)) = of_int (5 * int c)" by (rule fl_of_int)
  then have "js_mul (of_nat c) 5 = of_int (5 * int c)" by (simp add: js_mul_def mult.commute)
  then show ?thesis by (simp only: of_int_min)
next
  case False
  then have "30 \<le> 5 * int c" by simp
  then have "(of_int 30 :: rat) \<le> of_int (5 * int c)" by (simp only: of_int_le_iff)
  then have "(30 :: rat) \<le> of_nat c * 5" by simp
  then have "30 \<le> js_mul (of_nat c) 5" unfolding js_mul_def by (rule fl_ge_numeral) simp
  then show ?thesis using \<open>30 \<le> 5 * int c\<close> by (simp add: min_def)
qed

text \<open>The health score and the disease level are whole numbers, whatever the average.\<close>

lemma health_exact:
  fixes avg :: int and imp :: int
  assumes "0 \<le> imp" and "imp \<le> 30"
  shows "min 100 (js_add (max 20 (js_sub 100 (of_int avg))) (of_int imp))
           = of_int (min 100 (max 20 (100 - avg) + imp))"
proof -
  consider "avg \<le> 0" | "0 < avg" "avg < 80" | "80 \<le> avg" by linarith
  then show ?thesis
  proof cases
    case 1
    then have "100 \<le> 100 - avg" by simp
    then have "(of_int 100 :: rat) \<le> of_int (100 - avg)" by (simp only: of_int_le_iff)
    then have "(100 :: rat) \<le> 100 - of_int avg" by simp
    then have "100 \<le> js_sub 100 (of_int avg)" unfolding js_sub_def by (rule fl_ge_numeral) simp
    then have "100 \<le> max 20 (js_sub 100 (of_int avg)) + of_int imp" using assms(1) by simp
    then have "100 \<le> js_add (max 20 (js_sub 100 (of_int avg))) (of_int imp)"
      unfolding js_add_def by (rule fl_ge_numeral) simp
    then have "min 100 (js_add (max 20 (js_sub 100 (of_int avg))) (of_int imp)) = 100" by simp
    moreover have "min 100 (max 20 (100 - avg) + imp) = 100" using 1 assms(1) by simp
    ultimately show ?thesis by simp
  next
    case 2
    then have "\<bar>100 - avg\<bar> < 2 ^ 53" by simp
    then have "fl (of_int (100 - avg)) = of_int (100 - avg)" by (rule fl_of_int)
    then have s: "js_sub 100 (of_int avg) = of_int (100 - avg)" by (simp add: js_sub_def)
    have m: "max 20 (of_int (100 - avg) :: rat) = of_int (100 - avg)" using 2 by simp
    have "\<bar>100 - avg + imp\<bar> < 2 ^ 53" using 2 assms by simp
    then have "fl (of_int (100 - avg + imp)) = of_int (100 - avg + imp)" by (rule fl_of_int)
    then have "js_add (of_int (100 - avg)) (of_int imp) = of_int (100 - avg + imp)"
      by (simp add: js_add_def)
    then have "min 100 (js_add (max 20 (js_sub 100 (of_int avg))) (of_int imp))
                 = min 100 (of_int (100 - avg + imp))"
      by (simp only: s m)
    also have "\<dots> = of_int (min 100 (100 - avg + imp))" by (simp only: of_int_min)
    also have "max 20 (100 - avg) = 100 - avg" using 2 by simp
    then have "of_int (min 100 (100 - avg + imp)) = (of_int (min 100 (max 20 (100 - avg) + imp)) :: rat)"
      by simp
    finally show ?thesis .
  next
    case 3
    then have "100 - avg \<le> 20" by simp
    then have "(of_int (100 - avg) :: rat) \<le> of_int 20" by (simp only: of_int_le_iff)
    then have "100 - of_int avg \<le> (20 :: rat)" by simp
    then have "js_sub 100 (of_int avg) \<le> 20" unfolding js_sub_def by (rule fl_le_numeral) simp
    then have m: "max 20 (js_sub 100 (of_int avg)) = 20" by simp
    have "\<bar>20 + imp\<bar> < 2 ^ 53" using assms by simp
    then have "fl (of_int (20 + imp)) = of_int (20 + imp)" by (rule fl_of_int)
    then have "js_add 20 (of_int imp) = of_int (20 + imp)" by (simp add: js_add_def)
    then have "min 100 (js_add (max 20 (js_sub 100 (of_int avg))) (of_int imp))
                 = min 100 (of_int (20 + imp))"
      by (simp only: m)
    also have "\<dots> = of_int (min 100 (20 + imp))" by (simp only: of_int_min)
    also have "max 20 (100 - avg) = 20" using 3 by simp
    then have "of_int (min 100 (20 + imp)) = (of_int (min 100 (max 20 (100 - avg) + imp)) :: rat)"
      by simp
    finally show ?thesis .
  qed
qed

lemma disease_exact:
  assumes "20 \<le> h" and "h \<le> 100"
  shows "max 0 (js_sub 100 (of_int h)) = of_int (100 - h)"
proof -
  have "js_sub 100 (of_int h) = of_int (100 - h)" using assms by (intro js_sub_100_whole) simp_all
  moreover have "(0 :: rat) \<le> of_int (100 - h)" using assms(2) by simp
  ultimately show ?thesis by simp
qed

text \<open>A point of the trend, in exact integer arithmetic.\<close>

lemma trend_of_day_exact:
  "trend_of_day env ts avg day =
     \<lparr>date = toLocaleDateString env day,
      health = of_int (spec_health avg
                 (length (filter (\<lambda>t. Date_parse (scheduled_date t) \<le> day \<and> completed t) ts))),
      disease = of_int (100 - spec_health avg
                 (length (filter (\<lambda>t. Date_parse (scheduled_date t) \<le> day \<and> completed t) ts)))\<rparr>"
proof -
  define c where "c = length (filter (\<lambda>t. Date_parse (scheduled_date t) \<le> day \<and> completed t) ts)"
  define imp where "imp = min 30 (5 * int c)"
  have imp: "0 \<le> imp" "imp \<le> 30" by (simp_all add: imp_def)
  have h: "min 100 (js_add (max 20 (js_sub 100 (of_int avg))) (min 30 (js_mul (of_nat c) 5)))
             = of_int (min 100 (max 20 (100 - avg) + imp))"
    unfolding improvement_exact imp_def[symmetric] using imp by (rule health_exact)
  have sh: "spec_health avg c = min 100 (max 20 (100 - avg) + imp)"
    by (simp add: spec_health_def imp_def)
  have hb: "20 \<le> spec_health avg c" "spec_health avg c \<le> 100"
    unfolding sh using imp by simp_all
  show ?thesis
    unfolding trend_of_day_def Let_def c_def[symmetric] h sh[symmetric] disease_exact[OF hb]
    by simp
qed

lemma every_third_of_30:
  "filter (\<lambda>i. i mod 3 = 0) [0..<30] = [0, 3, 6, 9, 12, 15, 18, 21, 24, 27 :: nat]"
  by code_simp

lemma enumerate_map_upt: "enumerate 0 (map h [0..<n]) = map (\<lambda>i. (i, h i)) [0..<n]"
  by (simp add: enumerate_eq_zip zip_map2 zip_same_conv_map)

text \<open>The series: the points of the indices 0, 3, 6, ..., 27.\<close>

lemma generateCropHealthTrend_points:
  "generateCropHealthTrend env d =
     map (\<lambda>i. trend_of_day env (treatments d) (averageDiseasePercentage (stats d))
                (now env i - int (29 - i) * msPerDay))
       [0, 3, 6, 9, 12, 15, 18, 21, 24, 27]"
proof -
  let ?point = "\<lambda>i. trend_of_day env (treatments d) (averageDiseasePercentage (stats d))
                      (now env i - int (29 - i) * msPerDay)"
  have "generateCropHealthTrend env d
      = map snd (filter (\<lambda>(index, p). index mod 3 = 0) (map (\<lambda>i. (i, ?point i)) [0..<30]))"
    unfolding generateCropHealthTrend_def last30Days_def
    by (simp only: map_map comp_def enumerate_map_upt)
  also have "\<dots> = map ?point (filter (\<lambda>i. i mod 3 = 0) [0..<30])"
    by (simp add: filter_map comp_def)
  finally show ?thesis by (simp only: every_third_of_30)
qed











text \<open>A scheduled date with a time of day is compared as a moment: a treatment scheduled
  for 18:00 UTC on 8 May is not counted for 8 May when the clock time is 09:00 UTC.\<close>

lemma time_of_day_is_compared:
  "map health
     (generateCropHealthTrend \<lparr>now = (\<lambda>i. 1715331600000), utc_offset = 0\<rparr>
        (initial_dashboard
           \<lparr>treatments := [\<lparr>pesticide_name = ''Neem Oil'', scheduled_date = Date_time 1715191200000,
                            completed = True\<rparr>],
            stats := (stats initial_dashboard)\<lparr>averageDiseasePercentage := 50\<rparr>\<rparr>))
   = [50, 50, 50, 50, 50, 50, 50, 50, 50, 50]
   \<and> spec_scheduled_day 0 (Date_time 1715191200000) = 19851"
proof -
  let ?env = "\<lparr>now = (\<lambda>i. 1715331600000), utc_offset = 0\<rparr>"
  let ?d = "initial_dashboard
           \<lparr>treatments := [\<lparr>pesticide_name = ''Neem Oil'', scheduled_date = Date_time 1715191200000,
                            completed = True\<rparr>],
            stats := (stats initial_dashboard)\<lparr>averageDiseasePercentage := 50\<rparr>\<rparr>"
  have "map health (generateCropHealthTrend ?env ?d) = [50, 50, 50, 50, 50, 50, 50, 50, 50, 50]"
    unfolding generateCropHealthTrend_points trend_of_day_exact
    by (simp add: spec_health_def Date_parse_def msPerDay_def initial_dashboard_def)
  moreover have "spec_scheduled_day 0 (Date_time 1715191200000) = 19851"
    by (simp add: spec_scheduled_day_def msPerDay_def)
  ultimately show ?thesis by (simp only:)
qed

section \<open>Pesticide usage\<close>





















text \<open>A first word that \<open>Object.prototype\<close> has a member for is not grouped at all.\<close>

lemma inherited_name_is_dropped:
  "generatePesticideUsage [treatment_named ''constructor grade lime'' True] = []"
  by (simp add: generatePesticideUsage_def tally_def treatment_named_def first_word_def
      Object_prototype_keys_def Object_entries_def own_property_keys_def)

section \<open>The loading guard\<close>

lemma effect_sees_0: "effect_sessionCheckAttempts = 0"
  by (simp add: effect_sessionCheckAttempts_def initial_session_def)

lemma retry_always_calls: "retry_calls_checkUser effect_sessionCheckAttempts"
  by (simp add: retry_calls_checkUser_def effect_sees_0 MAX_SESSION_CHECK_ATTEMPTS_def)

lemma elapse_add: "elapse (m + n) w = elapse n (elapse m w)"
  by (induction m arbitrary: w) simp_all

lemma tick_awaiting:
  assumes "href_assigned s = []" and "1 < r" and "1 < a" and "1 < b"
  shows "tick (awaiting_state s j r a b) = awaiting_state s j (r - 1) (a - 1) (b - 1)"
  using assms
  by (simp add: tick_def awaiting_state_def page_alive_def check_timer_tick_def guard_tick_def
      hint_timer_tick_def Let_def)

lemma elapse_awaiting:
  assumes "href_assigned s = []" and "n < r" and "n < a" and "n < b"
  shows "elapse n (awaiting_state s j r a b) = awaiting_state s j (r - n) (a - n) (b - n)"
  using assms
proof (induction n arbitrary: r a b)
  case 0
  then show ?case by simp
next
  case (Suc n)
  have "tick (awaiting_state s j r a b) = awaiting_state s j (r - 1) (a - 1) (b - 1)"
    using Suc.prems by (intro tick_awaiting) simp_all
  moreover have "elapse n (awaiting_state s j (r - 1) (a - 1) (b - 1))
                   = awaiting_state s j (r - 1 - n) (a - 1 - n) (b - 1 - n)"
    using Suc.prems by (intro Suc.IH) simp_all
  ultimately show ?case by simp
qed

lemma tick_retrying:
  assumes "href_assigned s = []" and "1 < r" and "1 < a" and "1 < b"
  shows "tick (retrying_state s j r a b) = retrying_state s j (r - 1) (a - 1) (b - 1)"
  using assms
  by (simp add: tick_def retrying_state_def page_alive_def check_timer_tick_def guard_tick_def
      hint_timer_tick_def Let_def)

lemma elapse_retrying:
  assumes "href_assigned s = []" and "n < r" and "n < a" and "n < b"
  shows "elapse n (retrying_state s j r a b) = retrying_state s j (r - n) (a - n) (b - n)"
  using assms
proof (induction n arbitrary: r a b)
  case 0
  then show ?case by simp
next
  case (Suc n)
  have "tick (retrying_state s j r a b) = retrying_state s j (r - 1) (a - 1) (b - 1)"
    using Suc.prems by (intro tick_retrying) simp_all
  moreover have "elapse n (retrying_state s j (r - 1) (a - 1) (b - 1))
                   = retrying_state s j (r - 1 - n) (a - 1 - n) (b - 1 - n)"
    using Suc.prems by (intro Suc.IH) simp_all
  ultimately show ?case by simp
qed

text \<open>The retry timer fires: \<open>checkUser\<close> is called again.\<close>

lemma tick_retry_fires:
  assumes "href_assigned s = []" and "1 < a" and "1 < b"
  shows "tick (retrying_state s j 1 a b) = awaiting_state s j 10000 (a - 1) (b - 1)"
  using assms retry_always_calls
  by (simp add: tick_def retrying_state_def awaiting_state_def page_alive_def check_timer_tick_def
      guard_tick_def hint_timer_tick_def Let_def)

lemma elapse_retry_delay:
  assumes "href_assigned s = []"
  shows "elapse 2000 (retrying_state s j 2000 8000 12000) = awaiting_state s j 10000 6000 10000"
proof -
  have "elapse (1999 + 1) (retrying_state s j 2000 8000 12000)
          = elapse 1 (elapse 1999 (retrying_state s j 2000 8000 12000))"
    by (rule elapse_add)
  also have "elapse 1999 (retrying_state s j 2000 8000 12000) = retrying_state s j 1 6001 10001"
    using elapse_retrying[OF assms, of 1999 2000 8000 12000 j] by simp
  also have "elapse 1 (retrying_state s j 1 6001 10001) = tick (retrying_state s j 1 6001 10001)"
    by simp
  also have "\<dots> = awaiting_state s j 10000 6000 10000"
    using tick_retry_fires[OF assms, of 6001 10001 j] by simp
  finally show ?thesis by simp
qed

text \<open>
  The pending check fails: the counter grows, \<open>AuthProvider\<close> renders again, and the
  spinner's effect, whose dependency has changed, clears its two timers and starts
  them afresh.
\<close>

lemma check_fails_resets_timers:
  assumes "href_assigned s = []" and "loading s"
  shows "check_settles (CheckFails GetSessionRejects) (awaiting_state s j r a b)
           = retrying_state (failed_times 1 s) (Suc j) 2000 8000 12000"
  using assms
  by (simp add: check_settles_def from_getSession_def settle_def awaiting_state_def retrying_state_def page_alive_def
      checkUser_def effect_sees_0 MAX_SESSION_CHECK_ATTEMPTS_def console_log_def Let_def
      set_auth_def AppRoutes_def spinner_render_def spinner_effect_def spinner_cleanup_def
      failed_times_def)

lemma failing_round_restarts:
  assumes "href_assigned s = []" and "loading s"
    and "latency < r" and "latency < a" and "latency < b"
  shows "run (failing_round latency) (awaiting_state s j r a b)
           = awaiting_state (failed_times 1 s) (Suc j) 10000 6000 10000"
proof -
  have s': "href_assigned (failed_times 1 s) = []" using assms(1) by (simp add: failed_times_def)
  have "run (failing_round latency) (awaiting_state s j r a b)
      = elapse 2000 (check_settles (CheckFails GetSessionRejects)
          (elapse latency (awaiting_state s j r a b)))"
    by (simp add: run_def failing_round_def)
  also have "\<dots> = elapse 2000 (check_settles (CheckFails GetSessionRejects)
          (awaiting_state s j (r - latency) (a - latency) (b - latency)))"
    by (simp only: elapse_awaiting[OF assms(1,3,4,5)])
  also have "\<dots> = elapse 2000 (retrying_state (failed_times 1 s) (Suc j) 2000 8000 12000)"
    by (simp only: check_fails_resets_timers[OF assms(1,2)])
  also have "\<dots> = awaiting_state (failed_times 1 s) (Suc j) 10000 6000 10000"
    by (rule elapse_retry_delay[OF s'])
  finally show ?thesis .
qed

lemma run_append: "run (xs @ ys) w = run ys (run xs w)"
  by (simp add: run_def)

lemma failed_times_add: "failed_times 1 (failed_times k s) = failed_times (Suc k) s"
  by (simp add: failed_times_def replicate_append_same)

lemma failing_rounds_stuck:
  assumes "latency < 6000"
  shows "run (failing_rounds (Suc k) latency) (app_mount ls ss)
           = awaiting_state (failed_times (Suc k) (initial_session ls ss)) (Suc k) 10000 6000 10000"
proof (induction k)
  case 0
  have "app_mount ls ss = awaiting_state (initial_session ls ss) 0 10000 8000 12000"
    by (simp add: app_mount_def AppRoutes_def awaiting_state_def initial_session_def
        spinner_mount_def spinner_effect_def)
  moreover have "href_assigned (initial_session ls ss) = []" "loading (initial_session ls ss)"
    by (simp_all add: initial_session_def)
  ultimately show ?case
    using assms failing_round_restarts[of "initial_session ls ss" latency 10000 8000 12000 0]
    by (simp add: failing_rounds_def)
next
  case (Suc k)
  let ?s = "failed_times (Suc k) (initial_session ls ss)"
  have s: "href_assigned ?s = []" "loading ?s"
    by (simp_all add: failed_times_def initial_session_def)
  have "replicate (Suc (Suc k)) (failing_round latency)
          = replicate (Suc k) (failing_round latency) @ [failing_round latency]"
    using replicate_append_same[of "Suc k" "failing_round latency"] by simp
  then have "failing_rounds (Suc (Suc k)) latency = failing_rounds (Suc k) latency @ failing_round latency"
    unfolding failing_rounds_def by (simp only: concat_append) simp
  then have "run (failing_rounds (Suc (Suc k)) latency) (app_mount ls ss)
      = run (failing_round latency) (awaiting_state ?s (Suc k) 10000 6000 10000)"
    by (simp add: run_append Suc.IH)
  also have "\<dots> = awaiting_state (failed_times 1 ?s) (Suc (Suc k)) 10000 6000 10000"
    using assms by (intro failing_round_restarts s) simp_all
  finally show ?case by (simp only: failed_times_add)
qed


lemma duration_failing_rounds: "duration (failing_rounds k latency) = k * (latency + 2000)"
  by (induction k) (simp_all add: duration_def failing_rounds_def failing_round_def)

text \<open>Left alone, the spinner shows its hint after 8 seconds.\<close>

lemma hint_when_undisturbed:
  "map_option showTimeout (guard (elapse 8000 (app_mount ls ss))) = Some True"
proof -
  have m: "app_mount ls ss = awaiting_state (initial_session ls ss) 0 10000 8000 12000"
    by (simp add: app_mount_def AppRoutes_def awaiting_state_def initial_session_def
        spinner_mount_def spinner_effect_def)
  have h: "href_assigned (initial_session ls ss) = []" by (simp add: initial_session_def)
  have "elapse (7999 + 1) (app_mount ls ss) = elapse 1 (elapse 7999 (app_mount ls ss))"
    by (rule elapse_add)
  also have "elapse 7999 (app_mount ls ss) = awaiting_state (initial_session ls ss) 0 2001 1 4001"
    unfolding m using elapse_awaiting[OF h, of 7999 10000 8000 12000 0] by simp
  finally have "elapse 8000 (app_mount ls ss) = tick (awaiting_state (initial_session ls ss) 0 2001 1 4001)"
    by simp
  then show ?thesis
    using h by (simp add: tick_def awaiting_state_def page_alive_def check_timer_tick_def
        guard_tick_def hint_timer_tick_def Let_def)
qed

text \<open>
  Claim C4 says that once the loading guard is mounted, the hint shows when \<open>loading\<close>
  has stayed true for 8 seconds and the session is cleared, with a navigation to the
  root route, when it has stayed true for 12 seconds, the timers being cancelled on
  unmount only. The effect depends on \<open>clearSession\<close>, which every render of
  \<open>AuthProvider\<close> makes anew, so every change of the provider's state while the guard is
  mounted cancels both timers and starts them again. A session check that keeps
  failing changes \<open>sessionCheckAttempts\<close> each time: when each invocation fails within
  6 seconds, then after any number of rounds, however long they take together,
  \<open>loading\<close> is still true, the hint is not shown, nothing was cleared and no navigation
  took place.
\<close>

theorem loading_guard_starved:
  assumes "latency < 6000"
  shows "duration (failing_rounds (Suc k) latency) = Suc k * (latency + 2000)
       \<and> loading (auth (run (failing_rounds (Suc k) latency) (app_mount ls ss)))
       \<and> map_option showTimeout (guard (run (failing_rounds (Suc k) latency) (app_mount ls ss)))
           = Some False
       \<and> href_assigned (auth (run (failing_rounds (Suc k) latency) (app_mount ls ss))) = []
       \<and> localStorage (auth (run (failing_rounds (Suc k) latency) (app_mount ls ss))) = ls
       \<and> sessionStorage (auth (run (failing_rounds (Suc k) latency) (app_mount ls ss))) = ss"
  unfolding failing_rounds_stuck[OF assms] duration_failing_rounds
  by (simp add: awaiting_state_def failed_times_def initial_session_def)

theorem loading_guard_starved_witness:
  "duration (failing_rounds (Suc 5) 500) = 15000
   \<and> loading (auth (run (failing_rounds (Suc 5) 500) (app_mount [(''sb-auth-token'', ''t'')] [])))
   \<and> map_option showTimeout
        (guard (run (failing_rounds (Suc 5) 500) (app_mount [(''sb-auth-token'', ''t'')] [])))
       = Some False
   \<and> href_assigned (auth (run (failing_rounds (Suc 5) 500) (app_mount [(''sb-auth-token'', ''t'')] [])))
       = []
   \<and> localStorage (auth (run (failing_rounds (Suc 5) 500) (app_mount [(''sb-auth-token'', ''t'')] [])))
       = [(''sb-auth-token'', ''t'')]"
proof -
  have "(500 :: nat) < 6000" by simp
  from loading_guard_starved[OF this, of 5 "[(''sb-auth-token'', ''t'')]" "[]"]
  show ?thesis by simp
qed

text \<open>While the \<open>farmers\<close> query is awaited no timeout of the session check is pending: only
  the spinner's timers run, and after 12 seconds the spinner forces the redirect.\<close>

lemma farmers_query_has_no_timeout:
  "phase (elapse 11999 (session_found (app_mount ls ss))) = AwaitingFarmer
   \<and> href_assigned (auth (elapse 11999 (session_found (app_mount ls ss)))) = []"
proof -
  define farmer_state where "farmer_state a =
     \<lparr>auth = initial_session ls ss, provider_render = 0, phase = AwaitingFarmer,
      guard = Some \<lparr>showTimeout = a \<le> 4000, timeoutId = (if a \<le> 4000 then None else Some (a - 4000)),
                    forceRedirectId = Some a, clearSession_dep = 0\<rparr>\<rparr>" for a :: nat
  have m: "session_found (app_mount ls ss) = farmer_state 12000"
    by (simp add: app_mount_def AppRoutes_def session_found_def page_alive_def initial_session_def
        spinner_mount_def spinner_effect_def farmer_state_def)
  have t: "tick (farmer_state a) = farmer_state (a - 1)" if "1 < a" for a
    using that
    by (auto simp add: tick_def farmer_state_def page_alive_def check_timer_tick_def guard_tick_def
        hint_timer_tick_def Let_def initial_session_def)
  have e: "elapse n (farmer_state a) = farmer_state (a - n)" if "n < a" for n a
    using that
  proof (induction n arbitrary: a)
    case 0
    then show ?case by simp
  next
    case (Suc n)
    then have "tick (farmer_state a) = farmer_state (a - 1)" by (intro t) simp
    moreover have "elapse n (farmer_state (a - 1)) = farmer_state (a - 1 - n)"
      using Suc.prems by (intro Suc.IH) simp
    ultimately show ?case by simp
  qed
  have "elapse 11999 (session_found (app_mount ls ss)) = farmer_state 1"
    unfolding m using e[of 11999 12000] by simp
  then show ?thesis by (simp add: farmer_state_def initial_session_def)
qed

end
